theory Spec2Isabelle
  imports Complex_Main "HOL-Library.Stream" "HOL-Library.Multiset" "HOL-Library.AList"
begin

section \<open>Python values\<close>

text \<open>
  A Python \<open>str\<close> is a \<^typ>\<open>string\<close>: each \<^typ>\<open>char\<close> is one code point in the
  range U+0000 to U+00FF, and \<^const>\<open>length\<close> counts code points as \<open>len\<close> does.
  Text with code points above U+00FF is outside this development.
  Exceptions are values of \<open>py_error\<close>; a function that can raise returns
  \<open>py_error + 'a\<close>.
\<close>

datatype py_error =
    SystemExit string
  | ValueError
  | IndexError
  | CalledProcessError

abbreviation NL :: char where "NL \<equiv> CHR 0x0A"

definition isspace :: "char \<Rightarrow> bool" where
  \<comment> \<open>\<open>str.isspace\<close> on one character, which is also the class \<open>\s\<close> of \<open>re\<close>.\<close>
  "isspace c \<longleftrightarrow> c \<in> {CHR 0x09, CHR 0x0A, CHR 0x0B, CHR 0x0C, CHR 0x0D, CHR 0x1C, CHR 0x1D,
      CHR 0x1E, CHR 0x1F, CHR 0x20, CHR 0x85, CHR 0xA0}"

definition isalnum :: "char \<Rightarrow> bool" where
  "isalnum c \<longleftrightarrow> (let n = (of_char c :: nat) in
      (48 \<le> n \<and> n \<le> 57) \<or> (65 \<le> n \<and> n \<le> 90) \<or> (97 \<le> n \<and> n \<le> 122) \<or>
      n \<in> {170, 178, 179, 181, 185, 186, 188, 189, 190} \<or>
      (192 \<le> n \<and> n \<le> 214) \<or> (216 \<le> n \<and> n \<le> 246) \<or> (248 \<le> n \<and> n \<le> 255))"

definition is_word :: "char \<Rightarrow> bool" where
  \<comment> \<open>the class \<open>\w\<close> of \<open>re\<close> for \<open>str\<close> patterns\<close>
  "is_word c \<longleftrightarrow> isalnum c \<or> c = CHR ''_''"

definition lower_char :: "char \<Rightarrow> char" where
  "lower_char c = (let n = (of_char c :: nat) in
      if (65 \<le> n \<and> n \<le> 90) \<or> (192 \<le> n \<and> n \<le> 222 \<and> n \<noteq> 215) then char_of (n + 32) else c)"

definition lower :: "string \<Rightarrow> string" where
  "lower s = map lower_char s"

definition lstrip :: "string \<Rightarrow> string" where
  "lstrip s = dropWhile isspace s"

definition rstrip :: "string \<Rightarrow> string" where
  "rstrip s = rev (dropWhile isspace (rev s))"

definition strip :: "string \<Rightarrow> string" where
  "strip s = rstrip (lstrip s)"

fun startswith :: "string \<Rightarrow> string \<Rightarrow> bool" where
  \<comment> \<open>\<open>startswith p s\<close> is \<open>s.startswith(p)\<close>\<close>
  "startswith [] s = True"
| "startswith (p # ps) [] = False"
| "startswith (p # ps) (c # cs) = (p = c \<and> startswith ps cs)"

definition endswith_nl :: "string \<Rightarrow> bool" where
  \<comment> \<open>\<open>s.endswith("\n")\<close>\<close>
  "endswith_nl s \<longleftrightarrow> s \<noteq> [] \<and> last s = NL"

fun contains :: "string \<Rightarrow> string \<Rightarrow> bool" where
  \<comment> \<open>\<open>contains p s\<close> is \<open>p in s\<close>\<close>
  "contains p [] = (p = [])"
| "contains p (c # cs) = (startswith p (c # cs) \<or> contains p cs)"

fun replace_char :: "char \<Rightarrow> char \<Rightarrow> string \<Rightarrow> string" where
  \<comment> \<open>\<open>s.replace(a, b)\<close> for one-character \<open>a\<close> and \<open>b\<close>\<close>
  "replace_char a b [] = []"
| "replace_char a b (c # cs) = (if c = a then b else c) # replace_char a b cs"

fun split_on :: "char \<Rightarrow> string \<Rightarrow> string list" where
  \<comment> \<open>\<open>s.split(sep)\<close> for a one-character separator: empty fields are kept\<close>
  "split_on sep [] = [[]]"
| "split_on sep (c # cs) =
     (if c = sep then [] # split_on sep cs
      else (case split_on sep cs of [] \<Rightarrow> [[c]] | w # ws \<Rightarrow> (c # w) # ws))"

subsection \<open>Paths\<close>

text \<open>
  A \<open>pathlib.Path\<close> is the list of its parts. The paths of this program are the relative
  paths printed by \<open>git ls-files\<close>, so there is no root or drive part.
\<close>

type_synonym path = "string list"

definition name :: "path \<Rightarrow> string" where
  "name p = (if p = [] then [] else last p)"

definition rfind_dot :: "string \<Rightarrow> nat option" where
  \<comment> \<open>\<open>name.rfind('.')\<close>, with \<open>None\<close> for \<open>-1\<close>\<close>
  "rfind_dot s = (if CHR ''.'' \<in> set s
      then Some (length s - 1 - length (takeWhile (\<lambda>c. c \<noteq> CHR ''.'') (rev s))) else None)"

definition suffix :: "path \<Rightarrow> string" where
  "suffix p = (case rfind_dot (name p) of
      None \<Rightarrow> []
    | Some i \<Rightarrow> if 0 < i \<and> i + 1 < length (name p) then drop i (name p) else [])"

definition stem :: "path \<Rightarrow> string" where
  "stem p = (case rfind_dot (name p) of
      None \<Rightarrow> name p
    | Some i \<Rightarrow> if 0 < i \<and> i + 1 < length (name p) then take i (name p) else name p)"

fun join_with :: "string \<Rightarrow> string list \<Rightarrow> string" where
  "join_with sep [] = []"
| "join_with sep [w] = w"
| "join_with sep (w # ws) = w @ sep @ join_with sep ws"

definition str_path :: "path \<Rightarrow> string" where
  \<comment> \<open>\<open>str(f)\<close>\<close>
  "str_path p = (if p = [] then ''.'' else join_with ''/'' p)"

subsection \<open>The random source\<close>

text \<open>
  The generator of module \<open>random\<close> is a stream of raw draws. Every call takes the head of
  the stream and returns the rest, so a run is a function of the stream and every outcome
  of the generator is the outcome for some stream.
  \<open>random()\<close> is a multiple of \<open>2\<^sup>-\<^sup>5\<^sup>3\<close> in \<open>[0, 1)\<close>; for such a value the comparisons with
  the literals \<open>0.3\<close>, \<open>0.2\<close> and \<open>0.4\<close> agree with the comparisons with the exact fractions.
\<close>

type_synonym rng = "nat stream"

definition py_random :: "rng \<Rightarrow> rat \<times> rng" where
  "py_random g = (of_nat (shd g mod 2 ^ 53) / 2 ^ 53, stl g)"

definition py_randint :: "nat \<Rightarrow> nat \<Rightarrow> rng \<Rightarrow> nat \<times> rng" where
  \<comment> \<open>\<open>random.randint(a, b)\<close> for \<open>a \<le> b\<close>, which every call of this program ensures\<close>
  "py_randint a b g = (a + shd g mod (b - a + 1), stl g)"

definition py_choice :: "'a list \<Rightarrow> rng \<Rightarrow> 'a \<times> rng" where
  \<comment> \<open>\<open>random.choice(seq)\<close> for a non-empty \<open>seq\<close>\<close>
  "py_choice xs g = (xs ! (shd g mod length xs), stl g)"

section \<open>The file mutator\<close>

text \<open>
  The working tree maps a path to a regular file. \<open>content\<close> is the text that
  \<open>open(file, "r", encoding="utf-8")\<close> reads, after newline translation, and \<open>None\<close> when
  reading raises \<open>UnicodeDecodeError\<close>, \<open>PermissionError\<close> or another \<open>IOError\<close>;
  \<open>st_size\<close> is the size in bytes; \<open>writable\<close> tells whether \<open>open(file, "w")\<close> succeeds.
  There are no links: two paths are two files.
\<close>

record file_data =
  content :: "string option"
  st_size :: nat
  writable :: bool

type_synonym tree = "path \<rightharpoonup> file_data"

definition utf8_size :: "string \<Rightarrow> nat" where
  "utf8_size s = sum_list (map (\<lambda>c. if (of_char c :: nat) < 128 then 1 else 2) s)"

fun readlines :: "string \<Rightarrow> string list" where
  "readlines [] = []"
| "readlines (c # cs) =
     (if c = NL then [c] # readlines cs
      else (case readlines cs of [] \<Rightarrow> [[c]] | l # ls \<Rightarrow> (c # l) # ls))"

definition list_insert :: "nat \<Rightarrow> 'a \<Rightarrow> 'a list \<Rightarrow> 'a list" where
  \<comment> \<open>\<open>xs.insert(i, x)\<close> for \<open>0 \<le> i\<close>\<close>
  "list_insert i x xs = take i xs @ x # drop i xs"

definition needs_trim :: "string \<Rightarrow> bool" where
  "needs_trim line \<longleftrightarrow> rstrip line \<noteq> line \<and> strip line \<noteq> []"

definition trim_line :: "string \<Rightarrow> string" where
  "trim_line line =
     (if needs_trim line then (if endswith_nl line then rstrip line @ [NL] else rstrip line)
      else line)"

definition trim_trailing :: "string list \<times> bool \<Rightarrow> string list \<times> bool" where
  \<comment> \<open>the loop "Remove trailing whitespace" on \<open>(new_lines, changes_made)\<close>\<close>
  "trim_trailing st = (case st of (new_lines, changes_made) \<Rightarrow>
     (map trim_line new_lines, changes_made \<or> list_ex needs_trim new_lines))"

definition blank_line :: "nat \<Rightarrow> string list \<times> bool \<Rightarrow> string list \<times> bool" where
  \<comment> \<open>the inner \<open>if\<close> of the blank-line insertion at index \<open>idx\<close>\<close>
  "blank_line idx st = (case st of (new_lines, changes_made) \<Rightarrow>
     if strip (new_lines ! idx) \<noteq> [] \<and> strip (new_lines ! (idx - 1)) \<noteq> []
     then (list_insert idx [NL] new_lines, True) else (new_lines, changes_made))"

definition re_match_def :: "string \<Rightarrow> bool" where
  \<comment> \<open>\<open>re.match(r"^\s*def\s+\w+", line)\<close>: leading space, \<open>def\<close>, at least one space, a
      word character\<close>
  "re_match_def line \<longleftrightarrow> (let s1 = dropWhile isspace line in
      startswith ''def'' s1 \<and>
      (let s2 = drop 3 s1 in s2 \<noteq> [] \<and> isspace (hd s2) \<and>
        (let s3 = dropWhile isspace s2 in s3 \<noteq> [] \<and> is_word (hd s3))))"

definition has_docstring :: "string \<Rightarrow> bool" where
  "has_docstring nxt \<longleftrightarrow>
     startswith [CHR 0x22, CHR 0x22, CHR 0x22] (strip nxt) \<or> startswith [CHR 0x27, CHR 0x27, CHR 0x27] (strip nxt)"

definition docstring :: "string \<Rightarrow> rng \<Rightarrow> string \<times> rng" where
  "docstring line g = (let indent = length line - length (lstrip line);
       (phrase, g') = py_choice [''Helper function'', ''Process data'', ''Validate input'', ''Format output''] g
     in (replicate (indent + 4) CHR '' '' @ [CHR 0x22, CHR 0x22, CHR 0x22] @ phrase
           @ [CHR ''.'', CHR 0x22, CHR 0x22, CHR 0x22, NL], g'))"

fun add_docstring :: "string list \<Rightarrow> rng \<Rightarrow> (string list \<times> bool) \<times> rng" where
  \<comment> \<open>the loop "Add/improve docstrings": the first \<open>def\<close> line that has a next line without
      a docstring gets one, and the loop ends\<close>
  "add_docstring (line # nxt # rest) g =
     (if re_match_def line \<and> \<not> has_docstring nxt
      then (let (doc, g') = docstring line g in ((line # doc # nxt # rest, True), g'))
      else (let ((ls, ch), g') = add_docstring (nxt # rest) g in ((line # ls, ch), g')))"
| "add_docstring ls g = ((ls, False), g)"

definition mutate_py :: "string list \<Rightarrow> rng \<Rightarrow> (string list \<times> bool) \<times> rng" where
  "mutate_py lines g0 =
     (let st0 = (lines, False);
          (r1, g1) = py_random g0;
          (st1, g2) = (if r1 < 3 / 10 \<and> 5 < length lines
             then (let (idx, g) = py_randint 2 (length lines - 2) g1 in (blank_line idx st0, g))
             else (st0, g1));
          st2 = trim_trailing st1;
          (r2, g3) = py_random g2
      in if r2 < 2 / 10
         then (let ((ls, ch), g4) = add_docstring (fst st2) g3 in ((ls, snd st2 \<or> ch), g4))
         else (st2, g3))"

definition mutate_other :: "string list \<Rightarrow> rng \<Rightarrow> (string list \<times> bool) \<times> rng" where
  "mutate_other lines g0 =
     (let st1 = trim_trailing (lines, False);
          (r1, g1) = py_random g0
      in if r1 < 3 / 10 \<and> 3 < length (fst st1)
         then (let (idx, g2) = py_randint 1 (length (fst st1) - 1) g1 in (blank_line idx st1, g2))
         else (st1, g1))"

definition fix_newline :: "string list \<Rightarrow> string list \<Rightarrow> string list" where
  \<comment> \<open>"Ensure file ends with newline if it originally did"\<close>
  "fix_newline lines new_lines =
     (if lines \<noteq> [] \<and> endswith_nl (last lines) \<and> new_lines \<noteq> [] \<and> \<not> endswith_nl (last new_lines)
      then new_lines[length new_lines - 1 := last new_lines @ [NL]]
      else if lines \<noteq> [] \<and> \<not> endswith_nl (last lines) \<and> new_lines \<noteq> [] \<and> endswith_nl (last new_lines)
      then new_lines[length new_lines - 1 := rstrip (last new_lines)]
      else new_lines)"

definition write_back :: "path \<Rightarrow> file_data \<Rightarrow> string list \<Rightarrow> string list \<Rightarrow> tree \<Rightarrow> tree" where
  \<comment> \<open>the body of "Only write if we made changes"; a failing \<open>open(file, "w")\<close> is caught by
      the \<open>except\<close> clause and leaves the file as it is\<close>
  "write_back p f lines new_lines t =
     (if writable f
      then (let out = concat (fix_newline lines new_lines)
            in t(p \<mapsto> f\<lparr>content := Some out, st_size := utf8_size out\<rparr>))
      else t)"

definition touch_file :: "path \<Rightarrow> tree \<times> rng \<Rightarrow> tree \<times> rng" where
  \<comment> \<open>one iteration of the loop of \<open>touch_files\<close>; every \<open>continue\<close>, and every exception that the
      \<open>except\<close> clause catches, returns the tree as it is\<close>
  "touch_file p st = (case st of (t, g) \<Rightarrow>
     if suffix p = [] then (t, g)
     else (case t p of
       None \<Rightarrow> (t, g)
     | Some f \<Rightarrow>
         if 100000 < st_size f then (t, g)
         else (case content f of
           None \<Rightarrow> (t, g)
         | Some text \<Rightarrow>
             (let lines = readlines text in
              if lines = [] then (t, g)
              else (let ((new_lines, changes_made), g1) =
                          (if suffix p = ''.py'' then mutate_py lines g else mutate_other lines g)
                    in if changes_made then (write_back p f lines new_lines t, g1)
                       else (let (r, g2) = py_random g1
                             in if r < 4 / 10 then (write_back p f lines new_lines t, g2)
                                else (t, g2)))))))"

fun touch_files :: "path list \<Rightarrow> tree \<times> rng \<Rightarrow> tree \<times> rng" where
  "touch_files [] st = st"
| "touch_files (p # ps) st = touch_files ps (touch_file p st)"

section \<open>The commit-message synthesizer\<close>

subsection \<open>The keyword pattern\<close>

text \<open>
  \<open>_keyword_re\<close> is \<open>\b(?:fix|bug|...|removed)\b\<close> with \<open>re.IGNORECASE\<close>. At one position
  of the text the engine needs a word boundary, then tries the alternatives from left to
  right, each followed by a word boundary; the first that succeeds is the match.
  \<open>findall\<close> scans from left to right and resumes after the end of each match.
\<close>

definition alternatives :: "string list" where
  "alternatives = [''fix'', ''bug'', ''error'', ''issue'', ''exception'', ''todo'', ''refactor'',
     ''feature'', ''feat'', ''add'', ''added'', ''remove'', ''removed'']"

fun startswith_ci :: "string \<Rightarrow> string \<Rightarrow> bool" where
  \<comment> \<open>a lower-case literal of the pattern against the text, ignoring case\<close>
  "startswith_ci [] s = True"
| "startswith_ci (p # ps) [] = False"
| "startswith_ci (p # ps) (c # cs) = (lower_char c = p \<and> startswith_ci ps cs)"

definition next_is_word :: "string \<Rightarrow> bool" where
  "next_is_word s = (case s of [] \<Rightarrow> False | c # _ \<Rightarrow> is_word c)"

definition boundary :: "bool \<Rightarrow> string \<Rightarrow> bool" where
  \<comment> \<open>\<open>\b\<close> between a previous character (\<open>prev_word\<close>: it exists and is a word character)
      and the rest of the text\<close>
  "boundary prev_word s \<longleftrightarrow> prev_word \<noteq> next_is_word s"

fun first_alternative :: "string list \<Rightarrow> string \<Rightarrow> string option" where
  \<comment> \<open>the alternatives end with a letter, so the boundary after one has a word character
      before it\<close>
  "first_alternative [] s = None"
| "first_alternative (k # ks) s =
     (if startswith_ci k s \<and> boundary True (drop (length k) s) then Some (take (length k) s)
      else first_alternative ks s)"

definition keyword_at :: "bool \<Rightarrow> string \<Rightarrow> string option" where
  "keyword_at prev_word s = (if boundary prev_word s then first_alternative alternatives s else None)"

fun findall_from :: "bool \<Rightarrow> nat \<Rightarrow> string \<Rightarrow> string list" where
  \<comment> \<open>\<open>skip\<close> counts the characters of the last match that are still ahead\<close>
  "findall_from prev_word skip [] = []"
| "findall_from prev_word skip (c # cs) =
     (if 0 < skip then findall_from (is_word c) (skip - 1) cs
      else (case keyword_at prev_word (c # cs) of
          Some m \<Rightarrow> m # findall_from (is_word c) (length m - 1) cs
        | None \<Rightarrow> findall_from (is_word c) 0 cs))"

definition keyword_findall :: "string \<Rightarrow> string list" where
  \<comment> \<open>\<open>_keyword_re.findall(text)\<close>; \<open>_keyword_re.search(text)\<close> succeeds iff it is not empty\<close>
  "keyword_findall s = findall_from False 0 s"

subsection \<open>Counters\<close>

text \<open>
  A \<open>Counter\<close> is a dictionary in insertion order whose missing keys read as \<open>0\<close>. Its
  values here are \<open>int\<close>s, and \<open>float\<close>s that are multiples of \<open>0.5\<close>, for which the arithmetic
  of \<open>float\<close> is exact.
\<close>

datatype py_num = PyInt int | PyFloat rat

fun num_val :: "py_num \<Rightarrow> rat" where
  "num_val (PyInt i) = of_int i"
| "num_val (PyFloat r) = r"

fun num_add :: "py_num \<Rightarrow> py_num \<Rightarrow> py_num" where
  "num_add (PyInt i) (PyInt j) = PyInt (i + j)"
| "num_add a b = PyFloat (num_val a + num_val b)"

type_synonym counter = "(string \<times> py_num) list"

definition counter_get :: "counter \<Rightarrow> string \<Rightarrow> py_num" where
  "counter_get c k = (case map_of c k of None \<Rightarrow> PyInt 0 | Some v \<Rightarrow> v)"

definition counter_add :: "string \<Rightarrow> py_num \<Rightarrow> counter \<Rightarrow> counter" where
  \<comment> \<open>\<open>c[k] += v\<close>\<close>
  "counter_add k v c = AList.update k (num_add (counter_get c k) v) c"

definition counter_update :: "counter \<Rightarrow> counter \<Rightarrow> counter" where
  \<comment> \<open>\<open>c.update(kinds)\<close>: \<open>c[k] = v + c.get(k, 0)\<close> for every item of \<open>kinds\<close>\<close>
  "counter_update c kinds = foldl (\<lambda>acc (k, v). AList.update k (num_add v (counter_get acc k)) acc) c kinds"

definition most_common :: "counter \<Rightarrow> (string \<times> py_num) list" where
  \<comment> \<open>sorted by count, largest first, equal counts in insertion order\<close>
  "most_common c = sort_key (\<lambda>(k, v). - num_val v) c"

subsection \<open>Classifying a diff\<close>

definition is_linebreak :: "char \<Rightarrow> bool" where
  "is_linebreak c \<longleftrightarrow> c \<in> {CHR 0x0A, CHR 0x0B, CHR 0x0C, CHR 0x0D, CHR 0x1C, CHR 0x1D, CHR 0x1E, CHR 0x85}"

fun splitlines :: "string \<Rightarrow> string list" where
  \<comment> \<open>\<open>str.splitlines()\<close>: \<open>\r\n\<close> is one line break\<close>
  "splitlines [] = []"
| "splitlines (c # cs) =
     (if is_linebreak c
      then (case cs of
          d # ds \<Rightarrow> if c = CHR 0x0D \<and> d = CHR 0x0A then [] # splitlines ds else [] # splitlines cs
        | [] \<Rightarrow> [[]])
      else (case splitlines cs of [] \<Rightarrow> [[c]] | l # ls \<Rightarrow> (c # l) # ls))"

definition change_text :: "string \<Rightarrow> string option" where
  \<comment> \<open>the text of an added or removed line, \<open>None\<close> for a line that the loop skips\<close>
  "change_text line =
     (if line = [] \<or> hd line \<notin> {CHR ''+'', CHR ''-''} \<or> startswith ''+++'' line \<or> startswith ''---'' line
      then None else Some (strip (tl line)))"

definition re_match_structure :: "string \<Rightarrow> bool" where
  \<comment> \<open>\<open>re.match(r"(def|class|function)\b", text)\<close>\<close>
  "re_match_structure s \<longleftrightarrow>
     list_ex (\<lambda>k. startswith k s \<and> boundary True (drop (length k) s)) [''def'', ''class'', ''function'']"

definition re_match_test :: "string \<Rightarrow> bool" where
  \<comment> \<open>\<open>re.match(r"(test_|it\(|describe\()", text)\<close>\<close>
  "re_match_test s \<longleftrightarrow> list_ex (\<lambda>k. startswith k s) [''test_'', ''it('', ''describe('']"

definition is_comment :: "string \<Rightarrow> bool" where
  "is_comment s \<longleftrightarrow>
     list_ex (\<lambda>k. startswith k s) [''#'', ''//'', ''/*'', ''*'', [CHR 0x22, CHR 0x22, CHR 0x22]]"

definition classify_text :: "string \<Rightarrow> counter \<Rightarrow> counter" where
  \<comment> \<open>the body of the loop of \<open>_classify_change\<close> for the text of one changed line\<close>
  "classify_text s kinds =
     (let k1 = foldl (\<lambda>acc kw. counter_add (take 4 (lower kw)) (PyInt 1) acc) kinds (keyword_findall s);
          k2 = (if re_match_structure s then counter_add ''feat'' (PyInt 2) k1 else k1);
          k3 = (if re_match_test s then counter_add ''test'' (PyInt 1) k2 else k2)
      in if is_comment s then counter_add ''docs'' (PyFloat (1 / 2)) k3 else k3)"

definition classify_change :: "string \<Rightarrow> counter" where
  \<comment> \<open>\<open>_classify_change\<close>\<close>
  "classify_change diff =
     foldl (\<lambda>kinds line. case change_text line of None \<Rightarrow> kinds | Some s \<Rightarrow> classify_text s kinds)
       [] (splitlines diff)"

definition changed_texts :: "string \<Rightarrow> string list" where
  \<comment> \<open>the texts of the lines of a diff that \<open>_classify_change\<close> inspects\<close>
  "changed_texts diff = List.map_filter change_text (splitlines diff)"

definition keyword_matches :: "string \<Rightarrow> string list" where
  \<comment> \<open>all matches of \<open>_keyword_re\<close> in the inspected lines of a diff\<close>
  "keyword_matches diff = concat (map keyword_findall (changed_texts diff))"

definition text_count :: "string \<Rightarrow> string \<Rightarrow> rat" where
  \<comment> \<open>what the body of the loop of \<open>_classify_change\<close> adds to the count of key \<open>k\<close> for one
      text\<close>
  "text_count s k = of_nat (length (filter (\<lambda>m. take 4 (lower m) = k) (keyword_findall s)))
     + (if re_match_structure s \<and> k = ''feat'' then 2 else 0)
     + (if re_match_test s \<and> k = ''test'' then 1 else 0)
     + (if is_comment s \<and> k = ''docs'' then 1 / 2 else 0)"


subsection \<open>Shortening the subject\<close>

text \<open>
  \<open>textwrap.shorten(text, width, placeholder)\<close> joins the words of the text with single
  blanks and gives the result to a \<open>TextWrapper\<close> with \<open>max_lines=1\<close>. The text it gets from
  this program has no hyphen, so the chunks of the wrapper are the words and the blanks
  between them, and no word is broken at a hyphen.
\<close>

fun str_nat :: "nat \<Rightarrow> string" where
  "str_nat n = (if n < 10 then [char_of (48 + n)] else str_nat (n div 10) @ [char_of (48 + n mod 10)])"

definition str_int :: "int \<Rightarrow> string" where
  "str_int i = (if i < 0 then CHR ''-'' # str_nat (nat (- i)) else str_nat (nat i))"

fun split_words :: "string \<Rightarrow> string list" where
  \<comment> \<open>\<open>str.split()\<close>: the maximal runs of characters that are not whitespace\<close>
  "split_words [] = []"
| "split_words (c # cs) =
     (if isspace c then split_words cs
      else (case cs of
          [] \<Rightarrow> [[c]]
        | d # ds \<Rightarrow> if isspace d then [c] # split_words cs
            else (case split_words cs of [] \<Rightarrow> [[c]] | w # ws \<Rightarrow> (c # w) # ws)))"

fun chunks_of :: "string list \<Rightarrow> string list" where
  \<comment> \<open>the chunks of the words joined by single blanks\<close>
  "chunks_of [] = []"
| "chunks_of [w] = [w]"
| "chunks_of (w # ws) = w # '' '' # chunks_of ws"

fun fill_line :: "nat \<Rightarrow> string list \<Rightarrow> string list \<Rightarrow> string list \<times> string list" where
  \<comment> \<open>the inner loop of \<open>_wrap_chunks\<close>: chunks go to the current line while they fit\<close>
  "fill_line width cur_line [] = (cur_line, [])"
| "fill_line width cur_line (c # cs) =
     (if length (concat cur_line) + length c \<le> width then fill_line width (cur_line @ [c]) cs
      else (cur_line, c # cs))"

definition handle_long_word :: "nat \<Rightarrow> string list \<Rightarrow> string list \<Rightarrow> string list \<times> string list" where
  \<comment> \<open>\<open>_handle_long_word\<close> for a positive width: the head of the next chunk fills the line\<close>
  "handle_long_word width cur_line chunks =
     (let space_left = width - length (concat cur_line)
      in (cur_line @ [take space_left (hd chunks)], drop space_left (hd chunks) # tl chunks))"

fun add_placeholder :: "nat \<Rightarrow> string \<Rightarrow> string list \<Rightarrow> string list" where
  \<comment> \<open>the loop that drops chunks from the end of the line until the placeholder fits; the
      line is given last chunk first\<close>
  "add_placeholder width ph [] = [lstrip ph]"
| "add_placeholder width ph (c # cur) =
     (if strip c \<noteq> [] \<and> length (concat (c # cur)) + length ph \<le> width
      then [concat (rev (c # cur)) @ ph]
      else add_placeholder width ph cur)"

definition line_step :: "nat \<Rightarrow> string list \<Rightarrow> string list \<times> string list" where
  \<comment> \<open>one line of \<open>_wrap_chunks\<close> up to the point where its last blank chunk is dropped\<close>
  "line_step width chunks =
     (let (cur, rest) = fill_line width [] chunks;
          (cur2, rest2) = (if rest \<noteq> [] \<and> width < length (hd rest)
             then handle_long_word width cur rest else (cur, rest))
      in (if cur2 \<noteq> [] \<and> strip (last cur2) = [] then butlast cur2 else cur2, rest2))"

function wrap_chunks :: "nat \<Rightarrow> string \<Rightarrow> string list \<Rightarrow> string list" where
  \<comment> \<open>\<open>_wrap_chunks\<close> with \<open>max_lines=1\<close>: no line has been stored when the loop is entered
      again, and the first line stored ends it\<close>
  "wrap_chunks width ph chunks =
     (if chunks = [] \<or> width = 0 then []
      else (case line_step width chunks of (cur_line, rest) \<Rightarrow>
        if cur_line = [] then wrap_chunks width ph rest
        else if (rest = [] \<or> (length rest = 1 \<and> strip (hd rest) = [])) \<and> length (concat cur_line) \<le> width
        then [concat cur_line]
        else add_placeholder width ph (rev cur_line)))"
  by pat_completeness auto
termination
proof (relation "measure (\<lambda>(width, ph, chunks). length (concat chunks) + length chunks)")
  show "wf (measure (\<lambda>(width, ph, chunks). length (concat chunks) + length chunks))"
    by simp
next
  fix width :: nat and ph :: string and chunks cur rest :: "string list"
  assume ne: "\<not> (chunks = [] \<or> width = 0)" and step: "(cur, rest) = line_step width chunks"
  have sizes: "fill_line w c cs = (c', r) \<Longrightarrow>
      concat c' @ concat r = concat c @ concat cs \<and>
      length c' + length r = length c + length cs \<and> length c \<le> length c'"
    for w c cs c' r
    by (induction w c cs arbitrary: c' r rule: fill_line.induct) (auto split: if_splits)
  have stuck: "fill_line w [] cs = ([], r) \<Longrightarrow> cs \<noteq> [] \<Longrightarrow> r = cs \<and> w < length (hd cs)"
    for w cs r
  proof -
    assume f: "fill_line w [] cs = ([], r)" and "cs \<noteq> []"
    then obtain d ds where cs: "cs = d # ds" by (cases cs) auto
    show ?thesis
    proof (cases "length d \<le> w")
      case True
      then have "fill_line w [d] ds = ([], r)" using f cs by simp
      then have "length [d] \<le> length ([] :: string list)" using sizes by blast
      then show ?thesis by simp
    next
      case False
      then have "r = d # ds" using f cs by simp
      then show ?thesis using False cs by simp
    qed
  qed
  obtain c1 r1 where f: "fill_line width [] chunks = (c1, r1)"
    by (cases "fill_line width [] chunks")
  have sz: "concat c1 @ concat r1 = concat chunks" "length c1 + length r1 = length chunks"
    using sizes[OF f] by simp_all
  then have len: "length (concat c1) + length (concat r1) = length (concat chunks)"
    by (metis length_append)
  have "length (concat rest) + length rest < length (concat chunks) + length chunks"
  proof (cases "r1 \<noteq> [] \<and> width < length (hd r1)")
    case False
    then have rest: "rest = r1" using step f by (auto simp: line_step_def Let_def)
    have "c1 \<noteq> []"
    proof
      assume "c1 = []"
      then have "r1 = chunks \<and> width < length (hd chunks)" using stuck f ne by simp
      then show False using False ne by simp
    qed
    then have "length r1 < length chunks" using sz(2) by (cases c1) auto
    then show ?thesis using len rest by simp
  next
    case True
    then obtain d ds where r1: "r1 = d # ds" by (cases r1) auto
    have rest: "rest = drop (width - length (concat c1)) d # ds"
      using step f True r1 by (auto simp: line_step_def Let_def handle_long_word_def)
    show ?thesis
    proof (cases "c1 = []")
      case True
      have "width < length d" using \<open>r1 \<noteq> [] \<and> width < length (hd r1)\<close> r1 by simp
      moreover have "0 < width" using ne by simp
      ultimately have "length d - width < length d" by arith
      then have "length (drop (width - length (concat c1)) d) < length d"
        using True by simp
      then show ?thesis using len sz(2) rest r1 by simp
    next
      case False
      then have "length r1 < length chunks" using sz(2) by (cases c1) auto
      moreover have "length (concat rest) \<le> length (concat r1)" using rest r1 by simp
      moreover have "length rest = length r1" using rest r1 by simp
      ultimately show ?thesis using len by simp
    qed
  qed
  then show "((width, ph, rest), (width, ph, chunks))
      \<in> measure (\<lambda>(width, ph, chunks). length (concat chunks) + length chunks)"
    by simp
qed

declare wrap_chunks.simps [simp del]

definition shorten :: "string \<Rightarrow> nat \<Rightarrow> string \<Rightarrow> py_error + string" where
  "shorten s width ph =
     (if width = 0 \<or> width < length (lstrip ph) then Inl ValueError
      else Inr (join_with [NL] (wrap_chunks width ph (chunks_of (split_words s)))))"

subsection \<open>The message\<close>

text \<open>
  \<open>git\<close> holds the answers of the two \<open>git diff --cached\<close> calls for a file: the text
  printed, or \<open>None\<close> when the command fails and \<open>check=True\<close> raises.
\<close>

record git =
  diff_cached :: "path \<Rightarrow> string option"
  numstat :: "path \<Rightarrow> string option"

fun tally :: "git \<Rightarrow> path list \<Rightarrow> counter \<times> string list \<Rightarrow> py_error + counter \<times> string list" where
  \<comment> \<open>the loop over \<open>files\<close> on \<open>(overall_kinds, bullets)\<close>\<close>
  "tally g [] acc = Inr acc"
| "tally g (f # fs) acc =
     (case diff_cached g f of
        None \<Rightarrow> Inl CalledProcessError
      | Some diff \<Rightarrow>
         (case numstat g f of
            None \<Rightarrow> Inl CalledProcessError
          | Some out \<Rightarrow>
             (let stats = strip out
              in (case (if stats \<noteq> [] then split_on (CHR 0x09) stats else [''0'', ''0'', str_path f]) of
                    [adds, dels, _] \<Rightarrow>
                      tally g fs (counter_update (fst acc) (classify_change diff),
                                  snd acc @ [''- '' @ str_path f @ '' (+'' @ adds @ '' / -'' @ dels @ '')''])
                  | _ \<Rightarrow> Inl ValueError))))"

definition positive :: "py_num \<Rightarrow> bool" where
  "positive v \<longleftrightarrow> 0 < num_val v"

fun all_tests :: "path list \<Rightarrow> py_error + bool" where
  \<comment> \<open>\<open>all("test" in f.parts[0] or f.suffix in {".spec", ".test"} for f in files)\<close>;
      \<open>f.parts[0]\<close> raises for the path without parts\<close>
  "all_tests [] = Inr True"
| "all_tests (f # fs) =
     (if f = [] then Inl IndexError
      else if contains ''test'' (hd f) \<or> suffix f \<in> {''.spec'', ''.test''} then all_tests fs
      else Inr False)"

definition pick_type :: "counter \<Rightarrow> path list \<Rightarrow> py_error + string" where
  "pick_type overall_kinds files =
     (if positive (counter_get overall_kinds ''fix'') then Inr ''fix''
      else if positive (counter_get overall_kinds ''feat'') then Inr ''feat''
      else if positive (counter_get overall_kinds ''refa'') then Inr ''refactor''
      else if list_all (\<lambda>f. suffix f \<in> {''.md'', ''.rst''}) files then Inr ''docs''
      else (case all_tests files of
          Inl e \<Rightarrow> Inl e
        | Inr True \<Rightarrow> Inr ''test''
        | Inr False \<Rightarrow>
            if list_all (\<lambda>f. suffix f \<in> {''.css'', ''.scss'', ''.sass''}) files then Inr ''style''
            else Inr ''chore''))"

definition str_num :: "py_num \<Rightarrow> string" where
  \<comment> \<open>\<open>str\<close> of a count: a \<open>float\<close> count is a multiple of \<open>0.5\<close>\<close>
  "str_num v = (case v of
       PyInt i \<Rightarrow> str_int i
     | PyFloat r \<Rightarrow> str_int \<lfloor>r\<rfloor> @ (if r = of_int \<lfloor>r\<rfloor> then ''.0'' else ''.5''))"

definition subject_text :: "string \<Rightarrow> path \<Rightarrow> string" where
  \<comment> \<open>\<open>f"{commit_type}: update {top_file}"\<close> for the first file of the batch\<close>
  "subject_text commit_type f =
     commit_type @ '': update '' @ replace_char CHR ''-'' CHR '' '' (replace_char CHR ''_'' CHR '' '' (stem f))"

definition generate_commit_message :: "char \<Rightarrow> git \<Rightarrow> path list \<Rightarrow> py_error + string" where
  \<comment> \<open>\<open>ph\<close> is the placeholder of \<open>shorten\<close>, the one character U+2026, which is beyond
      \<^typ>\<open>char\<close>; \<open>bullets\<close> and \<open>summary\<close> are computed and not used\<close>
  "generate_commit_message ph g files =
     (if files = [] then Inr ''chore: update project\<newline>\<newline>(no file changes detected)''
      else (case tally g files ([], []) of
          Inl e \<Rightarrow> Inl e
        | Inr (overall_kinds, bullets) \<Rightarrow>
           (case pick_type overall_kinds files of
              Inl e \<Rightarrow> Inl e
            | Inr commit_type \<Rightarrow>
               (case shorten (subject_text commit_type (hd files)) 50 [ph] of
                  Inl e \<Rightarrow> Inl e
                | Inr subject \<Rightarrow>
                   (let summary = join_with '', ''
                          (map (\<lambda>(k, v). k @ [CHR 0xD7] @ str_num v) (most_common overall_kinds))
                    in Inr (subject @ [NL]))))))"

section \<open>The scheduler and the commit loop\<close>

text \<open>
  A \<open>datetime\<close> is a number of microseconds on the time line of naive datetimes, so that
  \<open>(b - a).days\<close> is \<open>(b - a) div DAY\<close> and \<open>t.date()\<close> is the day number \<open>t div DAY\<close>.
\<close>

type_synonym datetime = int

definition DAY :: int where
  "DAY = 86400000000"

definition date :: "datetime \<Rightarrow> int" where
  "date t = t div DAY"

fun sample_pool :: "'a list \<Rightarrow> nat \<Rightarrow> rng \<Rightarrow> 'a list \<times> rng" where
  \<comment> \<open>the loop of \<open>random.sample\<close>: the element drawn leaves the pool, the last element of
      the pool takes its place\<close>
  "sample_pool pool 0 g = ([], g)"
| "sample_pool pool (Suc k) g =
     (let j = shd g mod length pool;
          (rest, g') = sample_pool (butlast (pool[j := last pool])) k (stl g)
      in (pool ! j # rest, g'))"

definition py_sample :: "'a list \<Rightarrow> int \<Rightarrow> rng \<Rightarrow> py_error + 'a list \<times> rng" where
  \<comment> \<open>\<open>random.sample(population, k)\<close>: \<open>k\<close> positions drawn without replacement. For a large
      population CPython draws positions until they are new instead; the outcomes are the
      same lists\<close>
  "py_sample population k g =
     (if k < 0 \<or> int (length population) < k then Inl ValueError
      else Inr (sample_pool population (nat k) g))"

text \<open>
  \<open>env\<close> is what the run gets from outside: the parser \<open>datetime.fromisoformat\<close> (\<open>None\<close>
  when it raises), the placeholder of \<open>shorten\<close>, and the behaviour of \<open>git\<close>: the paths that
  \<open>git ls-files\<close> prints, whether \<open>checkout\<close> exits with 0, and for the \<open>n\<close>-th commit
  whether \<open>add\<close>, \<open>commit\<close> and \<open>push\<close> do and what the two \<open>diff\<close> calls print. A command that
  \<open>sh\<close> runs with another exit status raises \<open>CalledProcessError\<close>.
\<close>

record env =
  fromisoformat :: "string \<Rightarrow> datetime option"
  ellipsis :: char
  ls_files :: "path list option"
  checkout_ok :: bool
  add_ok :: "nat \<Rightarrow> bool"
  commit_ok :: "nat \<Rightarrow> bool"
  push_ok :: "nat \<Rightarrow> bool"
  answers :: "nat \<Rightarrow> git"

text \<open>
  The commands that the run starts are its trace. \<open>Commit msg t\<close> is \<open>git commit -m msg\<close>
  with \<open>GIT_AUTHOR_DATE\<close> and \<open>GIT_COMMITTER_DATE\<close> set to \<open>t\<close>; \<open>Print t msg\<close> is the line
  printed after a push. The two \<open>git diff\<close> queries of \<open>generate_commit_message\<close> change
  nothing and are not in the trace.
\<close>

datatype event =
    LsFiles
  | Checkout string
  | Add "path list"
  | Commit string datetime
  | Push string
  | Print datetime string

fun commit_dates :: "event list \<Rightarrow> datetime list" where
  "commit_dates [] = []"
| "commit_dates (Commit msg t # evs) = t # commit_dates evs"
| "commit_dates (ev # evs) = commit_dates evs"

definition tracked_files :: "env \<Rightarrow> tree \<Rightarrow> py_error + path list" where
  \<comment> \<open>the paths printed that are regular files\<close>
  "tracked_files e t = (case ls_files e of
       None \<Rightarrow> Inl CalledProcessError
     | Some paths \<Rightarrow> Inr (filter (\<lambda>p. t p \<noteq> None) paths))"

definition possible_dates :: "datetime \<Rightarrow> int \<Rightarrow> int \<Rightarrow> datetime list" where
  \<comment> \<open>the loop "Spread commits over days": every day of the range \<open>max_per_day\<close> times\<close>
  "possible_dates start_dt total_days max_per_day =
     concat (map (\<lambda>i. replicate (nat max_per_day) (start_dt + int i * DAY)) [0..<nat total_days])"

definition capacity_message :: "int \<Rightarrow> string \<Rightarrow> string \<Rightarrow> int \<Rightarrow> string" where
  "capacity_message commits start_s end_s max_per_day =
     ''Cannot fit '' @ str_int commits @ '' commits into range '' @ start_s @ '' to '' @ end_s
       @ '' with max '' @ str_int max_per_day @ '' per day.''"

fun commit_loop :: "env \<Rightarrow> string \<Rightarrow> path list \<Rightarrow> nat \<Rightarrow> datetime list \<Rightarrow> tree \<times> rng
    \<Rightarrow> (event list \<times> tree \<times> rng) \<times> (py_error + unit)" where
  \<comment> \<open>the loop over \<open>chosen_dates\<close>; \<open>n\<close> counts the iterations\<close>
  "commit_loop e branch allfiles n [] st = (([], st), Inr ())"
| "commit_loop e branch allfiles n (timestamp # rest) st =
     (let (num_files, g1) = py_randint 5 10 (snd st)
      in (case py_sample allfiles (int (min num_files (length allfiles))) g1 of
            Inl err \<Rightarrow> (([], (fst st, g1)), Inl err)
          | Inr (batch, g2) \<Rightarrow>
             (let st1 = touch_files batch (fst st, g2)
              in if \<not> add_ok e n then (([Add batch], st1), Inl CalledProcessError)
                 else (case generate_commit_message (ellipsis e) (answers e n) batch of
                    Inl err \<Rightarrow> (([Add batch], st1), Inl err)
                  | Inr msg \<Rightarrow>
                     if \<not> commit_ok e n
                     then (([Add batch, Commit msg timestamp], st1), Inl CalledProcessError)
                     else if \<not> push_ok e n
                     then (([Add batch, Commit msg timestamp, Push branch], st1), Inl CalledProcessError)
                     else (let ((evs, st2), r) = commit_loop e branch allfiles (Suc n) rest st1
                           in (([Add batch, Commit msg timestamp, Push branch, Print (date timestamp) msg] @ evs,
                                st2), r))))))"

definition backfill :: "env \<Rightarrow> tree \<times> rng \<Rightarrow> string \<Rightarrow> string \<Rightarrow> int \<Rightarrow> string \<Rightarrow> int
    \<Rightarrow> (event list \<times> tree \<times> rng) \<times> (py_error + unit)" where
  "backfill e st start_s end_s commits branch max_per_day =
     (case fromisoformat e start_s of
        None \<Rightarrow> (([], st), Inl ValueError)
      | Some start_dt \<Rightarrow>
     (case fromisoformat e end_s of
        None \<Rightarrow> (([], st), Inl ValueError)
      | Some end_dt \<Rightarrow>
     (let total_days = (end_dt - start_dt) div DAY + 1
      in if total_days \<le> 0 then (([], st), Inl (SystemExit ''End date must be after start date.''))
         else (case tracked_files e (fst st) of
            Inl err \<Rightarrow> (([LsFiles], st), Inl err)
          | Inr allfiles \<Rightarrow>
             if allfiles = []
             then (([LsFiles], st), Inl (SystemExit ''No tracked or unignored files found.''))
             else if int (length (possible_dates start_dt total_days max_per_day)) < commits
             then (([LsFiles], st),
                   Inl (SystemExit (capacity_message commits start_s end_s max_per_day)))
             else (case py_sample (possible_dates start_dt total_days max_per_day) commits (snd st) of
                Inl err \<Rightarrow> (([LsFiles], st), Inl err)
              | Inr (sampled, g1) \<Rightarrow>
                 if \<not> checkout_ok e
                 then (([LsFiles, Checkout branch], (fst st, g1)), Inl CalledProcessError)
                 else (let ((evs, st2), r) = commit_loop e branch allfiles 0 (sort sampled) (fst st, g1)
                       in ((LsFiles # Checkout branch # evs, st2), r)))))))"

section \<open>Evaluation of the definitions\<close>

lemmas str_defs = isspace_def isalnum_def is_word_def lower_def lower_char_def lstrip_def rstrip_def
  strip_def endswith_nl_def name_def rfind_dot_def suffix_def stem_def str_path_def

lemmas rng_defs = py_random_def py_randint_def py_choice_def

lemmas touch_defs = utf8_size_def list_insert_def needs_trim_def trim_line_def trim_trailing_def
  blank_line_def re_match_def_def has_docstring_def docstring_def mutate_py_def mutate_other_def
  fix_newline_def write_back_def touch_file_def

lemma replicate_num: "replicate (numeral k) x = x # replicate (pred_numeral k) x"
  by (simp add: numeral_eq_Suc)

lemma sample_pool_numeral:
  "sample_pool pool (numeral k) g =
     (let j = shd g mod length pool;
          (rest, g') = sample_pool (butlast (pool[j := last pool])) (pred_numeral k) (stl g)
      in (pool ! j # rest, g'))"
  by (simp add: numeral_eq_Suc)

lemmas run_defs = backfill_def tracked_files_def py_sample_def DAY_def date_def sample_pool_numeral

text \<open>
  The runs evaluated below share one environment: the parser knows three dates, \<open>git\<close> lists
  the one file \<open>Makefile\<close>, every command succeeds and the staged diffs are empty.
\<close>

lemma message_of_makefile: "generate_commit_message (CHR ''~'')
    \<lparr>diff_cached = (\<lambda>p. Some []), numstat = (\<lambda>p. Some [])\<rparr> [[''Makefile'']] = Inr ''chore: update Makefile\<newline>''"
  by code_simp

lemma pool_1_3: "possible_dates 63839664000000000 1 3 = [63839664000000000, 63839664000000000, 63839664000000000]"
  by code_simp

lemma pool_2_2: "possible_dates 63839664000000000 2 2 = [63839664000000000, 63839664000000000, 63839750400000000, 63839750400000000]"
  by code_simp

lemma pool_2_neg: "possible_dates 63839664000000000 2 (- 1) = []"
  by code_simp

lemma pool_5_3: "possible_dates 63839664000000000 5 3
    = [63839664000000000, 63839664000000000, 63839664000000000,
       63839750400000000, 63839750400000000, 63839750400000000,
       63839836800000000, 63839836800000000, 63839836800000000,
       63839923200000000, 63839923200000000, 63839923200000000,
       63840009600000000, 63840009600000000, 63840009600000000]"
  by code_simp

lemma capacity_message_5_3: "capacity_message 5 ''2024-01-01'' ''2024-01-01'' 3
    = ''Cannot fit 5 commits into range 2024-01-01 to 2024-01-01 with max 3 per day.''"
  by code_simp

lemmas run_facts = message_of_makefile pool_1_3 pool_2_2 pool_2_neg pool_5_3 capacity_message_5_3

lemma run_two_days: "backfill
     \<lparr>fromisoformat = [''2024-01-01'' \<mapsto> 63839664000000000, ''2024-01-02'' \<mapsto> 63839750400000000,
        ''2024-01-05'' \<mapsto> 63840009600000000], ellipsis = CHR ''~'',
      ls_files = Some [[''Makefile'']], checkout_ok = True, add_ok = (\<lambda>n. True),
      commit_ok = (\<lambda>n. True), push_ok = (\<lambda>n. True),
      answers = (\<lambda>n. \<lparr>diff_cached = (\<lambda>p. Some []), numstat = (\<lambda>p. Some [])\<rparr>)\<rparr>
     ([[''Makefile''] \<mapsto> \<lparr>content = Some ''all:\<newline>'', st_size = 5, writable = True\<rparr>], 3 ## 2 ## sconst 0)
     ''2024-01-01'' ''2024-01-02'' 3 ''main'' 2
   = (([LsFiles, Checkout ''main'',
        Add [[''Makefile'']], Commit ''chore: update Makefile\<newline>'' 63839664000000000,
        Push ''main'', Print 738885 ''chore: update Makefile\<newline>'',
        Add [[''Makefile'']], Commit ''chore: update Makefile\<newline>'' 63839750400000000,
        Push ''main'', Print 738886 ''chore: update Makefile\<newline>'',
        Add [[''Makefile'']], Commit ''chore: update Makefile\<newline>'' 63839750400000000,
        Push ''main'', Print 738886 ''chore: update Makefile\<newline>''],
       ([[''Makefile''] \<mapsto> \<lparr>content = Some ''all:\<newline>'', st_size = 5, writable = True\<rparr>], sconst 0)), Inr ())"
  by (simp add: run_defs str_defs rng_defs touch_defs run_facts Let_def)

lemma run_five_days: "snd (backfill
     \<lparr>fromisoformat = [''2024-01-01'' \<mapsto> 63839664000000000, ''2024-01-02'' \<mapsto> 63839750400000000,
        ''2024-01-05'' \<mapsto> 63840009600000000], ellipsis = CHR ''~'',
      ls_files = Some [[''Makefile'']], checkout_ok = True, add_ok = (\<lambda>n. True),
      commit_ok = (\<lambda>n. True), push_ok = (\<lambda>n. True),
      answers = (\<lambda>n. \<lparr>diff_cached = (\<lambda>p. Some []), numstat = (\<lambda>p. Some [])\<rparr>)\<rparr>
     ([[''Makefile''] \<mapsto> \<lparr>content = Some ''all:\<newline>'', st_size = 5, writable = True\<rparr>], 7 ## 3 ## 11 ## 0 ## 5 ## sconst 0)
     ''2024-01-01'' ''2024-01-05'' 5 ''main'' 3) = Inr ()"
  by (simp add: run_defs str_defs rng_defs touch_defs run_facts Let_def)

lemma run_one_day: "backfill
     \<lparr>fromisoformat = [''2024-01-01'' \<mapsto> 63839664000000000, ''2024-01-02'' \<mapsto> 63839750400000000,
        ''2024-01-05'' \<mapsto> 63840009600000000], ellipsis = CHR ''~'',
      ls_files = Some [[''Makefile'']], checkout_ok = True, add_ok = (\<lambda>n. True),
      commit_ok = (\<lambda>n. True), push_ok = (\<lambda>n. True),
      answers = (\<lambda>n. \<lparr>diff_cached = (\<lambda>p. Some []), numstat = (\<lambda>p. Some [])\<rparr>)\<rparr>
     ([[''Makefile''] \<mapsto> \<lparr>content = Some ''all:\<newline>'', st_size = 5, writable = True\<rparr>], sconst 0)
     ''2024-01-01'' ''2024-01-01'' 1 ''main'' 3
   = (([LsFiles, Checkout ''main'', Add [[''Makefile'']], Commit ''chore: update Makefile\<newline>'' 63839664000000000,
        Push ''main'', Print 738885 ''chore: update Makefile\<newline>''],
       ([[''Makefile''] \<mapsto> \<lparr>content = Some ''all:\<newline>'', st_size = 5, writable = True\<rparr>], sconst 0)), Inr ())"
  by (simp add: run_defs str_defs rng_defs touch_defs run_facts Let_def)

lemma run_negative: "backfill
     \<lparr>fromisoformat = [''2024-01-01'' \<mapsto> 63839664000000000, ''2024-01-02'' \<mapsto> 63839750400000000,
        ''2024-01-05'' \<mapsto> 63840009600000000], ellipsis = CHR ''~'',
      ls_files = Some [[''Makefile'']], checkout_ok = True, add_ok = (\<lambda>n. True),
      commit_ok = (\<lambda>n. True), push_ok = (\<lambda>n. True),
      answers = (\<lambda>n. \<lparr>diff_cached = (\<lambda>p. Some []), numstat = (\<lambda>p. Some [])\<rparr>)\<rparr>
     ([[''Makefile''] \<mapsto> \<lparr>content = Some ''all:\<newline>'', st_size = 5, writable = True\<rparr>], sconst 0)
     ''2024-01-01'' ''2024-01-02'' 0 ''main'' (- 1)
   = (([LsFiles, Checkout ''main''], ([[''Makefile''] \<mapsto> \<lparr>content = Some ''all:\<newline>'', st_size = 5, writable = True\<rparr>], sconst 0)), Inr ())"
  by (simp add: run_defs str_defs rng_defs touch_defs run_facts Let_def)

lemma parse_dates:
  "fromisoformat \<lparr>fromisoformat = [''2024-01-01'' \<mapsto> 63839664000000000, ''2024-01-02'' \<mapsto> 63839750400000000,
        ''2024-01-05'' \<mapsto> 63840009600000000], ellipsis = CHR ''~'',
      ls_files = Some [[''Makefile'']], checkout_ok = True, add_ok = (\<lambda>n. True),
      commit_ok = (\<lambda>n. True), push_ok = (\<lambda>n. True),
      answers = (\<lambda>n. \<lparr>diff_cached = (\<lambda>p. Some []), numstat = (\<lambda>p. Some [])\<rparr>)\<rparr> ''2024-01-01'' = Some 63839664000000000"
  "fromisoformat \<lparr>fromisoformat = [''2024-01-01'' \<mapsto> 63839664000000000, ''2024-01-02'' \<mapsto> 63839750400000000,
        ''2024-01-05'' \<mapsto> 63840009600000000], ellipsis = CHR ''~'',
      ls_files = Some [[''Makefile'']], checkout_ok = True, add_ok = (\<lambda>n. True),
      commit_ok = (\<lambda>n. True), push_ok = (\<lambda>n. True),
      answers = (\<lambda>n. \<lparr>diff_cached = (\<lambda>p. Some []), numstat = (\<lambda>p. Some [])\<rparr>)\<rparr> ''2024-01-02'' = Some 63839750400000000"
  "fromisoformat \<lparr>fromisoformat = [''2024-01-01'' \<mapsto> 63839664000000000, ''2024-01-02'' \<mapsto> 63839750400000000,
        ''2024-01-05'' \<mapsto> 63840009600000000], ellipsis = CHR ''~'',
      ls_files = Some [[''Makefile'']], checkout_ok = True, add_ok = (\<lambda>n. True),
      commit_ok = (\<lambda>n. True), push_ok = (\<lambda>n. True),
      answers = (\<lambda>n. \<lparr>diff_cached = (\<lambda>p. Some []), numstat = (\<lambda>p. Some [])\<rparr>)\<rparr> ''2024-01-05'' = Some 63840009600000000"
  by simp_all

section \<open>Properties of the file mutator\<close>

subsection \<open>Files that are skipped\<close>





subsection \<open>The final newline\<close>

text \<open>
  Each mutation leaves the list of lines non-empty and its last line non-empty, ending with
  a newline exactly when the last line read did: blank lines and docstrings are inserted
  before the last line, and trimming a line keeps its newline.
\<close>

lemma readlines_concat: "concat (readlines s) = s"
  by (induction s) (auto split: list.splits)

lemma readlines_nonempty: "l \<in> set (readlines s) \<Longrightarrow> l \<noteq> []"
  by (induction s arbitrary: l) (auto split: list.splits if_splits)

lemma readlines_Nil: "readlines s = [] \<longleftrightarrow> s = []"
  by (cases s) (auto split: list.splits)

lemma last_concat_last: "ls \<noteq> [] \<Longrightarrow> last ls \<noteq> [] \<Longrightarrow> last (concat ls) = last (last ls)"
proof (induction ls)
  case Nil
  then show ?case by simp
next
  case (Cons a ls)
  show ?case
  proof (cases "ls = []")
    case True
    then show ?thesis by simp
  next
    case False
    then have "last ls \<noteq> []" using Cons.prems by simp
    then have "last ls \<in> set ls" and "concat ls \<noteq> []" using False by auto
    then show ?thesis using Cons.IH False \<open>last ls \<noteq> []\<close> by simp
  qed
qed

lemma endswith_nl_concat:
  "ls \<noteq> [] \<Longrightarrow> last ls \<noteq> [] \<Longrightarrow> endswith_nl (concat ls) = endswith_nl (last ls)"
  by (auto simp: endswith_nl_def last_concat_last)

lemma last_list_insert: "i < length xs \<Longrightarrow> last (list_insert i x xs) = last xs"
  by (simp add: list_insert_def)

lemma list_insert_nonempty: "list_insert i x xs \<noteq> []"
  by (simp add: list_insert_def)

lemma rstrip_Nil_iff: "rstrip s = [] \<longleftrightarrow> (\<forall>c\<in>set s. isspace c)"
  by (simp add: rstrip_def dropWhile_eq_Nil_conv)

lemma rstrip_last_not_space: "rstrip s \<noteq> [] \<Longrightarrow> \<not> isspace (last (rstrip s))"
proof -
  assume a: "rstrip s \<noteq> []"
  then have "dropWhile isspace (rev s) \<noteq> []" by (simp add: rstrip_def)
  then have "\<not> isspace (hd (dropWhile isspace (rev s)))" by (rule hd_dropWhile)
  then show ?thesis using a by (simp add: rstrip_def last_rev)
qed

lemma strip_rstrip_nonempty: "strip s \<noteq> [] \<Longrightarrow> rstrip s \<noteq> []"
  unfolding strip_def lstrip_def rstrip_Nil_iff
  by (auto dest: set_dropWhileD)

lemma isspace_NL: "isspace NL"
  by (simp add: isspace_def)

lemma trim_line_end: "l \<noteq> [] \<Longrightarrow> trim_line l \<noteq> [] \<and> endswith_nl (trim_line l) = endswith_nl l"
proof -
  assume l: "l \<noteq> []"
  show ?thesis
  proof (cases "needs_trim l")
    case False
    then show ?thesis using l by (simp add: trim_line_def)
  next
    case True
    then have ne: "rstrip l \<noteq> []" by (simp add: needs_trim_def strip_rstrip_nonempty)
    show ?thesis
    proof (cases "endswith_nl l")
      case True
      with \<open>needs_trim l\<close> show ?thesis by (simp add: trim_line_def endswith_nl_def)
    next
      case False
      have "\<not> endswith_nl (rstrip l)"
        using rstrip_last_not_space[OF ne] isspace_NL by (auto simp: endswith_nl_def)
      with False \<open>needs_trim l\<close> ne show ?thesis by (simp add: trim_line_def)
    qed
  qed
qed

lemma py_randint_range: "a \<le> b \<Longrightarrow> a \<le> fst (py_randint a b g) \<and> fst (py_randint a b g) \<le> b"
proof -
  assume ab: "a \<le> b"
  have "shd g mod (b - a + 1) < b - a + 1" by (rule mod_less_divisor) simp
  then have "a + shd g mod (b - a + 1) \<le> b" using ab by linarith
  then show ?thesis unfolding py_randint_def fst_conv by linarith
qed

lemma trim_trailing_tail:
  assumes "xs \<noteq> []" "last xs \<noteq> []"
  shows "fst (trim_trailing (xs, ch)) \<noteq> [] \<and> last (fst (trim_trailing (xs, ch))) \<noteq> [] \<and>
     endswith_nl (last (fst (trim_trailing (xs, ch)))) = endswith_nl (last xs)"
  using assms trim_line_end[of "last xs"] by (simp add: trim_trailing_def last_map)

lemma trim_trailing_length: "length (fst (trim_trailing (xs, ch))) = length xs"
  by (simp add: trim_trailing_def)

lemma blank_line_tail:
  assumes "xs \<noteq> []" "last xs \<noteq> []" "idx < length xs"
  shows "fst (blank_line idx (xs, ch)) \<noteq> [] \<and> last (fst (blank_line idx (xs, ch))) = last xs"
  using assms by (simp add: blank_line_def last_list_insert list_insert_nonempty)

lemma add_docstring_tail:
  "xs \<noteq> [] \<Longrightarrow> fst (fst (add_docstring xs g)) \<noteq> [] \<and> last (fst (fst (add_docstring xs g))) = last xs"
  by (induction xs g rule: add_docstring.induct) (auto simp: Let_def split: prod.splits)

lemma mutate_other_tail:
  assumes "xs \<noteq> []" "last xs \<noteq> []"
  shows "fst (fst (mutate_other xs g)) \<noteq> [] \<and> last (fst (fst (mutate_other xs g))) \<noteq> [] \<and>
     endswith_nl (last (fst (fst (mutate_other xs g)))) = endswith_nl (last xs)"
proof -
  obtain ys ch where t: "trim_trailing (xs, False) = (ys, ch)" by (cases "trim_trailing (xs, False)")
  have ys: "ys \<noteq> []" "last ys \<noteq> []" "endswith_nl (last ys) = endswith_nl (last xs)"
    using trim_trailing_tail[OF assms, of False] t by simp_all
  have idx: "3 < length ys \<Longrightarrow> fst (py_randint 1 (length ys - 1) h) < length ys" for h
    using py_randint_range[of 1 "length ys - 1" h] by linarith
  have res: "fst (fst (mutate_other xs g)) = ys \<or>
      (3 < length ys \<and> (\<exists>h. fst (fst (mutate_other xs g)) = fst (blank_line (fst (py_randint 1 (length ys - 1) h)) (ys, ch))))"
    using t by (auto simp: mutate_other_def Let_def split_beta)
  then show ?thesis
  proof
    assume "fst (fst (mutate_other xs g)) = ys"
    then show ?thesis using ys by simp
  next
    assume "3 < length ys \<and> (\<exists>h. fst (fst (mutate_other xs g)) = fst (blank_line (fst (py_randint 1 (length ys - 1) h)) (ys, ch)))"
    then obtain h where len: "3 < length ys"
      and eq: "fst (fst (mutate_other xs g)) = fst (blank_line (fst (py_randint 1 (length ys - 1) h)) (ys, ch))"
      by blast
    show ?thesis
      unfolding eq using blank_line_tail[OF ys(1,2) idx[OF len], of h ch] ys by simp
  qed
qed

lemma mutate_py_tail:
  assumes "xs \<noteq> []" "last xs \<noteq> []"
  shows "fst (fst (mutate_py xs g)) \<noteq> [] \<and> last (fst (fst (mutate_py xs g))) \<noteq> [] \<and>
     endswith_nl (last (fst (fst (mutate_py xs g)))) = endswith_nl (last xs)"
proof -
  have idx: "5 < length xs \<Longrightarrow> fst (py_randint 2 (length xs - 2) h) < length xs" for h
    using py_randint_range[of 2 "length xs - 2" h] by linarith
  define st1 where "st1 = (if fst (py_random g) < 3 / 10 \<and> 5 < length xs
      then blank_line (fst (py_randint 2 (length xs - 2) (snd (py_random g)))) (xs, False) else (xs, False))"
  have st1: "fst st1 \<noteq> [] \<and> last (fst st1) = last xs"
    using blank_line_tail[OF assms idx, of _ False] assms
    by (auto simp: st1_def)
  obtain ys ch where t: "trim_trailing st1 = (ys, ch)" by (cases "trim_trailing st1")
  have ys: "ys \<noteq> []" "last ys \<noteq> []" "endswith_nl (last ys) = endswith_nl (last xs)"
    using trim_trailing_tail[of "fst st1" "snd st1"] st1 assms t by simp_all
  have res: "fst (fst (mutate_py xs g)) = ys \<or> (\<exists>g'. fst (fst (mutate_py xs g)) = fst (fst (add_docstring ys g')))"
    using t by (auto simp: mutate_py_def st1_def Let_def split_beta)
  then show ?thesis
  proof
    assume "fst (fst (mutate_py xs g)) = ys"
    then show ?thesis using ys by simp
  next
    assume "\<exists>g'. fst (fst (mutate_py xs g)) = fst (fst (add_docstring ys g'))"
    then obtain g' where eq: "fst (fst (mutate_py xs g)) = fst (fst (add_docstring ys g'))"
      by blast
    show ?thesis
      unfolding eq using add_docstring_tail[OF ys(1), of g'] ys by simp
  qed
qed

lemma fix_newline_id:
  assumes "new \<noteq> []" "endswith_nl (last new) = endswith_nl (last lines)"
  shows "fix_newline lines new = new"
  using assms by (simp add: fix_newline_def)

lemma write_back_content:
  assumes "lines = readlines s0" "lines \<noteq> []"
    and "new \<noteq> []" "last new \<noteq> []" "endswith_nl (last new) = endswith_nl (last lines)"
    and "t p = Some f" "content f = Some s0"
  shows "\<exists>f' s'. write_back p f lines new t p = Some f' \<and> content f' = Some s' \<and>
     endswith_nl s' = endswith_nl s0"
proof -
  have "last lines \<in> set (readlines s0)" using assms(1,2) by simp
  then have "last lines \<noteq> []" by (rule readlines_nonempty)
  then have "endswith_nl (concat lines) = endswith_nl (last lines)"
    using assms(2) by (simp add: endswith_nl_concat)
  then have orig: "endswith_nl s0 = endswith_nl (last lines)"
    using assms(1) by (simp add: readlines_concat)
  have "endswith_nl (concat new) = endswith_nl (last new)"
    using assms(3,4) by (simp add: endswith_nl_concat)
  then show ?thesis
    using orig assms by (simp add: write_back_def fix_newline_id Let_def)
qed

lemma touch_file_cases:
  "fst (touch_file q (t, g)) = t \<or>
   (\<exists>f0 s0 new. t q = Some f0 \<and> content f0 = Some s0 \<and> readlines s0 \<noteq> [] \<and>
      (new = fst (fst (mutate_py (readlines s0) g)) \<or>
       new = fst (fst (mutate_other (readlines s0) g))) \<and>
      fst (touch_file q (t, g)) = write_back q f0 (readlines s0) new t)"
  by (auto simp: touch_file_def Let_def split_beta split: option.splits)

lemma write_back_other: "p \<noteq> q \<Longrightarrow> write_back q f lines new t p = t p"
  by (simp add: write_back_def Let_def)

lemma touch_file_newline:
  assumes "t p = Some f" "content f = Some s0"
  shows "\<exists>f' s'. fst (touch_file q (t, g)) p = Some f' \<and> content f' = Some s' \<and>
     endswith_nl s' = endswith_nl s0"
proof -
  from touch_file_cases[of q t g] show ?thesis
  proof
    assume "fst (touch_file q (t, g)) = t"
    then show ?thesis using assms by simp
  next
    assume "\<exists>f0 s0 new. t q = Some f0 \<and> content f0 = Some s0 \<and> readlines s0 \<noteq> [] \<and>
      (new = fst (fst (mutate_py (readlines s0) g)) \<or>
       new = fst (fst (mutate_other (readlines s0) g))) \<and>
      fst (touch_file q (t, g)) = write_back q f0 (readlines s0) new t"
    then obtain f0 s0 new where q: "t q = Some f0" "content f0 = Some s0"
      and ne: "readlines s0 \<noteq> []"
      and new: "new = fst (fst (mutate_py (readlines s0) g)) \<or>
                new = fst (fst (mutate_other (readlines s0) g))"
      and res: "fst (touch_file q (t, g)) = write_back q f0 (readlines s0) new t"
      by blast
    show ?thesis
    proof (cases "p = q")
      case False
      then show ?thesis using res assms by (simp add: write_back_other)
    next
      case True
      have "last (readlines s0) \<in> set (readlines s0)" using ne by simp
      then have l: "last (readlines s0) \<noteq> []" by (rule readlines_nonempty)
      have tail: "new \<noteq> [] \<and> last new \<noteq> [] \<and>
          endswith_nl (last new) = endswith_nl (last (readlines s0))"
      proof (rule disjE[OF new])
        assume "new = fst (fst (mutate_py (readlines s0) g))"
        then show ?thesis using mutate_py_tail[OF ne l, of g] by simp
      next
        assume "new = fst (fst (mutate_other (readlines s0) g))"
        then show ?thesis using mutate_other_tail[OF ne l, of g] by simp
      qed
      have "\<exists>f' s'. write_back q f0 (readlines s0) new t q = Some f' \<and>
          content f' = Some s' \<and> endswith_nl s' = endswith_nl s0"
        using tail q ne by (intro write_back_content) simp_all
      then show ?thesis using True res assms q by simp
    qed
  qed
qed

lemma touch_files_newline:
  assumes "t p = Some f" "content f = Some s0"
  shows "\<exists>f' s'. fst (touch_files qs (t, g)) p = Some f' \<and> content f' = Some s' \<and>
     endswith_nl s' = endswith_nl s0"
  using assms
proof (induction qs arbitrary: t g f s0)
  case Nil
  then show ?case by simp
next
  case (Cons q qs)
  obtain t' g' where st: "touch_file q (t, g) = (t', g')"
    by (cases "touch_file q (t, g)")
  obtain f1 s1 where one: "t' p = Some f1" "content f1 = Some s1"
      "endswith_nl s1 = endswith_nl s0"
    using touch_file_newline[of t p f s0 q g] Cons.prems st by auto
  obtain f' s' where "fst (touch_files qs (t', g')) p = Some f'" "content f' = Some s'"
      "endswith_nl s' = endswith_nl s1"
    using Cons.IH[of t' f1 s1 g'] one(1,2) by blast
  then show ?case using st one(3) by simp
qed


text \<open>
  C9. A file that is text before \<open>touch_files\<close> is text after it, and its content ends
  with a newline after the pass exactly when it did before, whichever of the three
  mutations were applied and however often the file occurs in the batch.
\<close>

theorem touch_files_keeps_final_newline:
  assumes "t p = Some f" and "content f = Some s0"
  shows "\<exists>f' s'. fst (touch_files files (t, g)) p = Some f' \<and> content f' = Some s' \<and>
     (endswith_nl s' \<longleftrightarrow> endswith_nl s0)"
  using touch_files_newline[of t p f s0 files g] assms by simp

text \<open>
  In the witness a Python file of seven lines without final newline gets a blank line, loses
  its trailing blanks and gets a docstring; the rewritten file has no final newline either.
\<close>

theorem touch_files_keeps_final_newline_witness:
  "([[''src'', ''m.py''] \<mapsto> \<lparr>content = Some ''import os  \<newline>x = 1\<newline>y = 2\<newline>def f(a):\<newline>    return a\<newline>z = 3\<newline>w = 4  '',
         st_size = 57, writable = True\<rparr>]) [''src'', ''m.py'']
     = Some \<lparr>content = Some ''import os  \<newline>x = 1\<newline>y = 2\<newline>def f(a):\<newline>    return a\<newline>z = 3\<newline>w = 4  '',
         st_size = 57, writable = True\<rparr> \<and>
   fst (touch_files [[''src'', ''m.py'']]
     ([[''src'', ''m.py''] \<mapsto> \<lparr>content = Some ''import os  \<newline>x = 1\<newline>y = 2\<newline>def f(a):\<newline>    return a\<newline>z = 3\<newline>w = 4  '',
         st_size = 57, writable = True\<rparr>], sconst 0)) [''src'', ''m.py'']
     = Some \<lparr>content = Some (''import os\<newline>x = 1\<newline>\<newline>y = 2\<newline>def f(a):\<newline>    ''
         @ [CHR 0x22, CHR 0x22, CHR 0x22] @ ''Helper function.'' @ [CHR 0x22, CHR 0x22, CHR 0x22]
         @ ''\<newline>    return a\<newline>z = 3\<newline>w = 4''), st_size = 84, writable = True\<rparr> \<and>
   (\<exists>f' s'. fst (touch_files [[''src'', ''m.py'']]
     ([[''src'', ''m.py''] \<mapsto> \<lparr>content = Some ''import os  \<newline>x = 1\<newline>y = 2\<newline>def f(a):\<newline>    return a\<newline>z = 3\<newline>w = 4  '',
         st_size = 57, writable = True\<rparr>], sconst 0)) [''src'', ''m.py''] = Some f' \<and> content f' = Some s' \<and>
     (endswith_nl s' \<longleftrightarrow>
      endswith_nl ''import os  \<newline>x = 1\<newline>y = 2\<newline>def f(a):\<newline>    return a\<newline>z = 3\<newline>w = 4  ''))"
proof -
  have ev: "fst (touch_files [[''src'', ''m.py'']]
     ([[''src'', ''m.py''] \<mapsto> \<lparr>content = Some ''import os  \<newline>x = 1\<newline>y = 2\<newline>def f(a):\<newline>    return a\<newline>z = 3\<newline>w = 4  '',
         st_size = 57, writable = True\<rparr>], sconst 0)) [''src'', ''m.py'']
     = Some \<lparr>content = Some (''import os\<newline>x = 1\<newline>\<newline>y = 2\<newline>def f(a):\<newline>    ''
         @ [CHR 0x22, CHR 0x22, CHR 0x22] @ ''Helper function.'' @ [CHR 0x22, CHR 0x22, CHR 0x22]
         @ ''\<newline>    return a\<newline>z = 3\<newline>w = 4''), st_size = 84, writable = True\<rparr>"
    by (simp add: str_defs rng_defs touch_defs Let_def replicate_num)
  show ?thesis
    using ev touch_files_keeps_final_newline[of
      "[[''src'', ''m.py''] \<mapsto> \<lparr>content = Some ''import os  \<newline>x = 1\<newline>y = 2\<newline>def f(a):\<newline>    return a\<newline>z = 3\<newline>w = 4  '',
         st_size = 57, writable = True\<rparr>]" "[''src'', ''m.py'']"
      "\<lparr>content = Some ''import os  \<newline>x = 1\<newline>y = 2\<newline>def f(a):\<newline>    return a\<newline>z = 3\<newline>w = 4  '',
         st_size = 57, writable = True\<rparr>"
      "''import os  \<newline>x = 1\<newline>y = 2\<newline>def f(a):\<newline>    return a\<newline>z = 3\<newline>w = 4  ''"
      "[[''src'', ''m.py'']]" "sconst 0"]
    by simp
qed

section \<open>Properties of the commit-message synthesizer\<close>

subsection \<open>Counts\<close>

lemma num_val_add: "num_val (num_add a b) = num_val a + num_val b"
  by (cases a; cases b) simp_all

lemma counter_get_update:
  "counter_get (AList.update k v c) k' = (if k' = k then v else counter_get c k')"
  by (simp add: counter_get_def update_conv')

lemma val_counter_add:
  "num_val (counter_get (counter_add k v c) k') =
     num_val (counter_get c k') + (if k' = k then num_val v else 0)"
  by (simp add: counter_add_def counter_get_update num_val_add)

lemma val_foldl_keywords:
  "num_val (counter_get (foldl (\<lambda>acc kw. counter_add (take 4 (lower kw)) (PyInt 1) acc) c ms) k) =
     num_val (counter_get c k) + of_nat (length (filter (\<lambda>m. take 4 (lower m) = k) ms))"
  by (induction ms arbitrary: c) (auto simp: val_counter_add)

lemma val_classify_text:
  "num_val (counter_get (classify_text s c) k) = num_val (counter_get c k) + text_count s k"
  by (simp add: classify_text_def Let_def val_counter_add val_foldl_keywords text_count_def)

lemma val_classify_lines:
  "num_val (counter_get (foldl (\<lambda>kinds line. case change_text line of None \<Rightarrow> kinds
        | Some s \<Rightarrow> classify_text s kinds) c ls) k) =
     num_val (counter_get c k) + sum_list (map (\<lambda>s. text_count s k) (List.map_filter change_text ls))"
  by (induction ls arbitrary: c) (auto simp: val_classify_text List.map_filter_simps split: option.splits)

lemma val_classify_change:
  "num_val (counter_get (classify_change diff) k) = sum_list (map (\<lambda>s. text_count s k) (changed_texts diff))"
proof -
  have "num_val (counter_get [] k) = 0" by (simp add: counter_get_def)
  then show ?thesis
    unfolding classify_change_def changed_texts_def val_classify_lines by simp
qed

lemma distinct_counter_add: "distinct (map fst c) \<Longrightarrow> distinct (map fst (counter_add k v c))"
  by (simp add: counter_add_def distinct_update)

lemma distinct_classify_text: "distinct (map fst c) \<Longrightarrow> distinct (map fst (classify_text s c))"
proof -
  have f: "distinct (map fst c) \<Longrightarrow> distinct (map fst (foldl (\<lambda>acc kw. counter_add (take 4 (lower kw)) (PyInt 1) acc) c ms))" for ms c
    by (induction ms arbitrary: c) (auto simp: distinct_counter_add)
  assume "distinct (map fst c)"
  then show ?thesis
    by (simp add: classify_text_def Let_def f distinct_counter_add)
qed

lemma distinct_classify_change: "distinct (map fst (classify_change diff))"
proof -
  have "distinct (map fst c) \<Longrightarrow> distinct (map fst (foldl (\<lambda>kinds line. case change_text line of None \<Rightarrow> kinds
        | Some s \<Rightarrow> classify_text s kinds) c ls))" for c ls
    by (induction ls arbitrary: c) (auto simp: distinct_classify_text split: option.splits)
  then show ?thesis by (simp add: classify_change_def)
qed

lemma val_counter_update_aux:
  "distinct (map fst kinds) \<Longrightarrow>
   num_val (counter_get (counter_update acc kinds) k) =
     num_val (counter_get acc k) + (case map_of kinds k of None \<Rightarrow> 0 | Some v \<Rightarrow> num_val v)"
proof (induction kinds arbitrary: acc)
  case Nil
  then show ?case by (simp add: counter_update_def)
next
  case (Cons p kinds)
  obtain k' v' where p: "p = (k', v')" by (cases p)
  have step: "counter_update acc (p # kinds) =
      counter_update (AList.update k' (num_add v' (counter_get acc k')) acc) kinds"
    by (simp add: counter_update_def p)
  have d: "distinct (map fst kinds)" and notin: "k' \<notin> fst ` set kinds"
    using Cons.prems p by auto
  have none: "k = k' \<Longrightarrow> map_of kinds k = None"
    using notin by (simp add: map_of_eq_None_iff)
  show ?case
    unfolding step Cons.IH[OF d]
    using none by (auto simp: p counter_get_update num_val_add)
qed

lemma val_counter_update:
  "num_val (counter_get (counter_update acc (classify_change diff)) k) =
     num_val (counter_get acc k) + num_val (counter_get (classify_change diff) k)"
  using val_counter_update_aux[OF distinct_classify_change, of acc diff k]
  by (simp add: counter_get_def split: option.splits)

lemma val_tally:
  "tally g fs acc = Inr acc' \<Longrightarrow>
   num_val (counter_get (fst acc') k) = num_val (counter_get (fst acc) k) +
     sum_list (map (\<lambda>f. sum_list (map (\<lambda>s. text_count s k) (changed_texts (the (diff_cached g f))))) fs)"
proof (induction fs arbitrary: acc)
  case Nil
  then show ?case by simp
next
  case (Cons f fs)
  then show ?case
    by (auto simp: Let_def val_counter_update val_classify_change split: option.splits list.splits if_splits)
qed
















lemma tally_diffs:
  "tally g fs acc = Inr acc' \<Longrightarrow> f \<in> set fs \<Longrightarrow> \<exists>diff. diff_cached g f = Some diff"
proof (induction fs arbitrary: acc)
  case Nil
  then show ?case by simp
next
  case (Cons a fs)
  then show ?case
    by (auto simp: Let_def split: option.splits list.splits if_splits)
qed

lemma sum_list_zero:
  fixes f :: "'a \<Rightarrow> rat"
  shows "\<forall>x\<in>set xs. f x = 0 \<Longrightarrow> sum_list (map f xs) = 0"
  by (induction xs) auto

lemma tally_zero:
  assumes "tally g files ([], []) = Inr (overall_kinds, bullets)"
    and "\<forall>f\<in>set files. \<forall>diff. diff_cached g f = Some diff \<longrightarrow>
           (\<forall>s\<in>set (changed_texts diff). text_count s k = 0)"
  shows "\<not> positive (counter_get overall_kinds k)"
proof -
  let ?per_file = "\<lambda>f. sum_list (map (\<lambda>s. text_count s k) (changed_texts (the (diff_cached g f))))"
  have zero: "?per_file f = 0" if fin: "f \<in> set files" for f
  proof -
    obtain diff where d: "diff_cached g f = Some diff"
      using tally_diffs[OF assms(1) fin] by blast
    then have "\<forall>s\<in>set (changed_texts diff). text_count s k = 0"
      using assms(2) fin by blast
    then have "sum_list (map (\<lambda>s. text_count s k) (changed_texts diff)) = 0"
      by (rule sum_list_zero)
    then show ?thesis using d by simp
  qed
  then have "sum_list (map ?per_file files) = 0"
    by (intro sum_list_zero) blast
  then have "num_val (counter_get overall_kinds k) = 0"
    using val_tally[OF assms(1), of k] by (simp add: counter_get_def)
  then show ?thesis by (simp add: positive_def)
qed

lemma startswith_ci_lower:
  "startswith_ci k s \<Longrightarrow> lower (take (length k) s) = k"
  by (induction k s rule: startswith_ci.induct) (auto simp: lower_def)

lemma first_alternative_lower:
  "first_alternative ks s = Some m \<Longrightarrow> lower m \<in> set ks"
  by (induction ks) (auto simp: startswith_ci_lower split: if_splits)

lemma findall_from_alternatives:
  "m \<in> set (findall_from pw skip s) \<Longrightarrow> lower m \<in> set alternatives"
proof (induction pw skip s rule: findall_from.induct)
  case (1 prev_word skip)
  then show ?case by simp
next
  case (2 prev_word skip c cs)
  show ?case
  proof (cases "0 < skip")
    case True
    then show ?thesis using 2 by simp
  next
    case False
    show ?thesis
    proof (cases "keyword_at prev_word (c # cs)")
      case None
      then show ?thesis using 2 False by simp
    next
      case (Some m')
      then have "lower m' \<in> set alternatives"
        by (auto simp: keyword_at_def first_alternative_lower split: if_splits)
      then show ?thesis using 2 False Some by auto
    qed
  qed
qed

lemma type_key_of_match:
  assumes "m \<in> set (keyword_findall s)"
    and "lower m \<notin> {''fix'', ''feature'', ''feat'', ''refactor''}"
  shows "take 4 (lower m) \<notin> {''fix'', ''feat'', ''refa''}"
proof -
  have "lower m \<in> set alternatives"
    using assms(1) unfolding keyword_findall_def by (rule findall_from_alternatives)
  then show ?thesis using assms(2) by (auto simp: alternatives_def)
qed

lemma text_count_type_zero:
  assumes "\<forall>m\<in>set (keyword_findall s). lower m \<notin> {''fix'', ''feature'', ''feat'', ''refactor''}"
    and "\<not> re_match_structure s" and "k \<in> {''fix'', ''feat'', ''refa''}"
  shows "text_count s k = 0"
proof -
  have "filter (\<lambda>m. take 4 (lower m) = k) (keyword_findall s) = []"
    using assms(1,3) type_key_of_match[of _ s] by (auto simp: filter_empty_conv)
  then show ?thesis using assms(2,3) by (auto simp: text_count_def)
qed

lemma no_type_keyword_falls_through:
  assumes "tally g files ([], []) = Inr (overall_kinds, bullets)"
    and "\<forall>f\<in>set files. \<forall>diff. diff_cached g f = Some diff \<longrightarrow>
          (\<forall>m\<in>set (keyword_matches diff). lower m \<notin> {''fix'', ''feature'', ''feat'', ''refactor''}) \<and>
          (\<forall>s\<in>set (changed_texts diff). \<not> re_match_structure s)"
  shows "\<not> positive (counter_get overall_kinds ''fix'') \<and>
     \<not> positive (counter_get overall_kinds ''feat'') \<and>
     \<not> positive (counter_get overall_kinds ''refa'')"
proof -
  have "\<not> positive (counter_get overall_kinds k)" if k: "k \<in> {''fix'', ''feat'', ''refa''}" for k
  proof (rule tally_zero[OF assms(1)], intro ballI allI impI)
    fix f diff s
    assume f: "f \<in> set files" "diff_cached g f = Some diff" "s \<in> set (changed_texts diff)"
    then have "\<forall>m\<in>set (keyword_findall s). lower m \<notin> {''fix'', ''feature'', ''feat'', ''refactor''}"
      using assms(2) by (auto simp: keyword_matches_def)
    moreover have "\<not> re_match_structure s" using assms(2) f by blast
    ultimately show "text_count s k = 0" using k by (rule text_count_type_zero)
  qed
  then show ?thesis by simp
qed

subsection \<open>Selecting the commit type\<close>



text \<open>
  C6. As the claim states it, it fails: a line that starts with \<open>def\<close>, \<open>class\<close> or
  \<open>function\<close> counts for \<open>feat\<close> though it holds no keyword. A markdown file with the added
  line \<open>class diagram\<close> gives \<open>feat\<close>, not \<open>docs\<close>, and a Python and a markdown file with the
  added line \<open>def main():\<close> give \<open>feat\<close>, not \<open>chore\<close>.
\<close>

theorem keywordless_diff_counterexample:
  "list_all (\<lambda>f. suffix f = ''.md'') [[''README.md'']] \<and>
   keyword_matches ''@@ -0,0 +1 @@\<newline>+class diagram'' = [] \<and>
   generate_commit_message (CHR ''~'')
     \<lparr>diff_cached = [[''README.md''] \<mapsto> ''@@ -0,0 +1 @@\<newline>+class diagram''],
      numstat = [[''README.md''] \<mapsto> ''1'' @ [CHR 0x09] @ ''0'' @ [CHR 0x09] @ ''README.md\<newline>'']\<rparr>
     [[''README.md'']] = Inr ''feat: update README\<newline>'' \<and>
   \<not> list_all (\<lambda>f. suffix f \<in> {''.md'', ''.rst''}) [[''src'', ''app.py''], [''notes.md'']] \<and>
   all_tests [[''src'', ''app.py''], [''notes.md'']] = Inr False \<and>
   \<not> list_all (\<lambda>f. suffix f \<in> {''.css'', ''.scss'', ''.sass''}) [[''src'', ''app.py''], [''notes.md'']] \<and>
   keyword_matches ''@@ -0,0 +1 @@\<newline>+def main():'' = [] \<and>
   generate_commit_message (CHR ''~'')
     \<lparr>diff_cached = [[''src'', ''app.py''] \<mapsto> ''@@ -0,0 +1 @@\<newline>+def main():'', [''notes.md''] \<mapsto> []],
      numstat = [[''src'', ''app.py''] \<mapsto> ''1'' @ [CHR 0x09] @ ''0'' @ [CHR 0x09] @ ''src/app.py\<newline>'',
                 [''notes.md''] \<mapsto> []]\<rparr>
     [[''src'', ''app.py''], [''notes.md'']] = Inr ''feat: update app\<newline>''"
  by code_simp

text \<open>
  C6, amended. When no keyword match in the staged diffs of the batch is \<open>fix\<close>, \<open>feat\<close>,
  \<open>feature\<close> or \<open>refactor\<close>, and no added or removed line starts with the word \<open>def\<close>,
  \<open>class\<close> or \<open>function\<close>, then a batch of markdown files only gets \<open>docs\<close>, and a batch
  that is neither all documentation, nor all tests, nor all stylesheets gets \<open>chore\<close>.
\<close>

theorem quiet_diff_selects_by_files:
  assumes "tally g files ([], []) = Inr (overall_kinds, bullets)"
    and "\<forall>f\<in>set files. \<forall>diff. diff_cached g f = Some diff \<longrightarrow>
          (\<forall>m\<in>set (keyword_matches diff). lower m \<notin> {''fix'', ''feature'', ''feat'', ''refactor''}) \<and>
          (\<forall>s\<in>set (changed_texts diff). \<not> re_match_structure s)"
  shows "(list_all (\<lambda>f. suffix f = ''.md'') files \<longrightarrow> pick_type overall_kinds files = Inr ''docs'') \<and>
     (\<not> list_all (\<lambda>f. suffix f \<in> {''.md'', ''.rst''}) files \<and> all_tests files = Inr False \<and>
      \<not> list_all (\<lambda>f. suffix f \<in> {''.css'', ''.scss'', ''.sass''}) files \<longrightarrow>
        pick_type overall_kinds files = Inr ''chore'')"
proof -
  have z: "\<not> positive (counter_get overall_kinds ''fix'') \<and>
     \<not> positive (counter_get overall_kinds ''feat'') \<and>
     \<not> positive (counter_get overall_kinds ''refa'')"
    using assms by (rule no_type_keyword_falls_through)
  have "list_all (\<lambda>f. suffix f = ''.md'') files \<Longrightarrow> list_all (\<lambda>f. suffix f \<in> {''.md'', ''.rst''}) files"
    by (simp add: list_all_iff)
  then show ?thesis using z by (auto simp: pick_type_def)
qed

text \<open>The witness has one batch for each half: a markdown file, and a Python file with a
  markdown file.\<close>

theorem quiet_diff_selects_by_files_witness:
  "list_all (\<lambda>f. suffix f = ''.md'') [[''README.md'']] \<and>
   pick_type [(''docs'', PyFloat (1 / 2))] [[''README.md'']] = Inr ''docs'' \<and>
   \<not> list_all (\<lambda>f. suffix f \<in> {''.md'', ''.rst''}) [[''src'', ''app.py''], [''notes.md'']] \<and>
   all_tests [[''src'', ''app.py''], [''notes.md'']] = Inr False \<and>
   \<not> list_all (\<lambda>f. suffix f \<in> {''.css'', ''.scss'', ''.sass''}) [[''src'', ''app.py''], [''notes.md'']] \<and>
   pick_type [(''bug'', PyInt 1)] [[''src'', ''app.py''], [''notes.md'']] = Inr ''chore''"
proof -
  let ?g1 = "\<lparr>diff_cached = [[''README.md''] \<mapsto> ''@@ -0,0 +1 @@\<newline>+# Overview of the classes''],
      numstat = [[''README.md''] \<mapsto> ''1'' @ [CHR 0x09] @ ''0'' @ [CHR 0x09] @ ''README.md\<newline>'']\<rparr>"
  let ?g2 = "\<lparr>diff_cached = [[''src'', ''app.py''] \<mapsto> ''@@ -1 +1 @@\<newline>-x = 1\<newline>+x = 2  # bug'', [''notes.md''] \<mapsto> []],
      numstat = [[''src'', ''app.py''] \<mapsto> ''1'' @ [CHR 0x09] @ ''1'' @ [CHR 0x09] @ ''src/app.py\<newline>'',
                 [''notes.md''] \<mapsto> []]\<rparr>"
  have t1: "tally ?g1 [[''README.md'']] ([], [])
      = Inr ([(''docs'', PyFloat (1 / 2))], [''- README.md (+1 / -0)''])"
    by code_simp
  have q1: "\<forall>f\<in>set [[''README.md'']]. \<forall>diff. diff_cached ?g1 f = Some diff \<longrightarrow>
          (\<forall>m\<in>set (keyword_matches diff). lower m \<notin> {''fix'', ''feature'', ''feat'', ''refactor''}) \<and>
          (\<forall>s\<in>set (changed_texts diff). \<not> re_match_structure s)"
  proof -
    have "keyword_matches ''@@ -0,0 +1 @@\<newline>+# Overview of the classes'' = []"
      and "changed_texts ''@@ -0,0 +1 @@\<newline>+# Overview of the classes'' = [''# Overview of the classes'']"
      and "\<not> re_match_structure ''# Overview of the classes''"
      by code_simp+
    then show ?thesis by simp
  qed
  have t2: "tally ?g2 [[''src'', ''app.py''], [''notes.md'']] ([], [])
      = Inr ([(''bug'', PyInt 1)], [''- src/app.py (+1 / -1)'', ''- notes.md (+0 / -0)''])"
    by code_simp
  have q2: "\<forall>f\<in>set [[''src'', ''app.py''], [''notes.md'']]. \<forall>diff. diff_cached ?g2 f = Some diff \<longrightarrow>
          (\<forall>m\<in>set (keyword_matches diff). lower m \<notin> {''fix'', ''feature'', ''feat'', ''refactor''}) \<and>
          (\<forall>s\<in>set (changed_texts diff). \<not> re_match_structure s)"
  proof -
    have "keyword_matches ''@@ -1 +1 @@\<newline>-x = 1\<newline>+x = 2  # bug'' = [''bug'']"
      and "lower ''bug'' = ''bug''"
      and "changed_texts ''@@ -1 +1 @@\<newline>-x = 1\<newline>+x = 2  # bug'' = [''x = 1'', ''x = 2  # bug'']"
      and "\<not> re_match_structure ''x = 1''" and "\<not> re_match_structure ''x = 2  # bug''"
      and "keyword_matches [] = []" and "changed_texts [] = []"
      by code_simp+
    then show ?thesis by simp
  qed
  have a1: "list_all (\<lambda>f. suffix f = ''.md'') [[''README.md'']]"
    by code_simp
  have a2: "\<not> list_all (\<lambda>f. suffix f \<in> {''.md'', ''.rst''}) [[''src'', ''app.py''], [''notes.md'']]"
    and a3: "all_tests [[''src'', ''app.py''], [''notes.md'']] = Inr False"
    and a4: "\<not> list_all (\<lambda>f. suffix f \<in> {''.css'', ''.scss'', ''.sass''}) [[''src'', ''app.py''], [''notes.md'']]"
    by code_simp+
  have c1: "pick_type [(''docs'', PyFloat (1 / 2))] [[''README.md'']] = Inr ''docs''"
    using quiet_diff_selects_by_files[OF t1 q1] a1 by blast
  have c2: "pick_type [(''bug'', PyInt 1)] [[''src'', ''app.py''], [''notes.md'']] = Inr ''chore''"
    using quiet_diff_selects_by_files[OF t2 q2] a2 a3 a4 by blast
  show ?thesis
    by (intro conjI a1 a2 a3 a4 c1 c2)
qed



subsection \<open>The message returned\<close>







section \<open>Properties of the scheduler\<close>

subsection \<open>Sampling and the pool of dates\<close>

lemma pool_step_mset:
  assumes "j < length pool"
  shows "mset (butlast (pool[j := last pool])) + {#pool ! j#} = mset pool"
proof (cases pool rule: rev_cases)
  case Nil
  then show ?thesis using assms by simp
next
  case (snoc xs l)
  show ?thesis
  proof (cases "j = length xs")
    case True
    then show ?thesis using snoc by simp
  next
    case False
    then have j: "j < length xs" using assms snoc by simp
    then have "butlast (pool[j := last pool]) = xs[j := l]"
      using snoc by (simp add: list_update_append)
    moreover have "pool ! j = xs ! j" using snoc j by (simp add: nth_append)
    ultimately show ?thesis using snoc j by (simp add: mset_update)
  qed
qed

lemma sample_pool_mset:
  "k \<le> length pool \<Longrightarrow> mset (fst (sample_pool pool k g)) \<subseteq># mset pool \<and> length (fst (sample_pool pool k g)) = k"
proof (induction k arbitrary: pool g)
  case 0
  then show ?case by simp
next
  case (Suc k)
  let ?j = "shd g mod length pool"
  let ?pool' = "butlast (pool[?j := last pool])"
  have ne: "0 < length pool" using Suc.prems by linarith
  then have j: "?j < length pool" by simp
  have "k \<le> length ?pool'" using Suc.prems by simp
  then have ih: "mset (fst (sample_pool ?pool' k (stl g))) \<subseteq># mset ?pool'"
      "length (fst (sample_pool ?pool' k (stl g))) = k"
    using Suc.IH by blast+
  have "mset (fst (sample_pool pool (Suc k) g)) = mset (fst (sample_pool ?pool' k (stl g))) + {#pool ! ?j#}"
    by (simp add: Let_def split_beta)
  also have "\<dots> \<subseteq># mset ?pool' + {#pool ! ?j#}" using ih(1) by simp
  also have "\<dots> = mset pool" using j by (rule pool_step_mset)
  finally show ?case using ih(2) by (simp add: Let_def split_beta)
qed

lemma filter_possible_dates:
  assumes "\<forall>i\<in>set ns. \<forall>j\<in>set ns. P (f i) \<and> P (f j) \<longrightarrow> i = j" "distinct ns"
  shows "length (filter P (concat (map (\<lambda>i. replicate m (f i)) ns))) \<le> m"
  using assms
proof (induction ns)
  case Nil
  then show ?case by simp
next
  case (Cons n ns)
  show ?case
  proof (cases "P (f n)")
    case True
    have "\<forall>i\<in>set ns. \<not> P (f i)" using Cons.prems True by auto
    then have "filter P (concat (map (\<lambda>i. replicate m (f i)) ns)) = []"
      by (auto simp: filter_empty_conv)
    then show ?thesis using True by simp
  next
    case False
    then show ?thesis using Cons by simp
  qed
qed

lemma DAY_pos: "0 < DAY"
  by (simp add: DAY_def)

lemma date_shift: "date (s + i * DAY) = date s + i"
  using DAY_pos by (simp add: date_def)

lemma possible_dates_count:
  "length (filter (\<lambda>t. date t = d) (possible_dates s n m)) \<le> nat m"
  unfolding possible_dates_def
  by (rule filter_possible_dates) (auto simp: date_shift)

lemma possible_dates_member:
  assumes "t \<in> set (possible_dates s n m)"
  shows "\<exists>i. 0 \<le> i \<and> i < n \<and> t = s + i * DAY"
proof -
  obtain k where "k < nat n" "t = s + int k * DAY"
    using assms by (auto simp: possible_dates_def)
  then show ?thesis by (intro exI[of _ "int k"]) auto
qed

lemma possible_dates_length: "length (possible_dates s n m) = nat n * nat m"
  by (simp add: possible_dates_def length_concat comp_def sum_list_triv)

lemma in_range:
  assumes "0 \<le> i" "i < (f - s) div DAY + 1"
  shows "s \<le> s + i * DAY \<and> s + i * DAY \<le> f"
proof -
  have "i \<le> (f - s) div DAY" using assms(2) by simp
  then have "i * DAY \<le> ((f - s) div DAY) * DAY" using DAY_pos by simp
  also have "\<dots> \<le> f - s"
  proof -
    have "(f - s) = ((f - s) div DAY) * DAY + (f - s) mod DAY" by simp
    moreover have "0 \<le> (f - s) mod DAY" using DAY_pos by simp
    ultimately show ?thesis by linarith
  qed
  finally show ?thesis using assms(1) DAY_pos by simp
qed


lemma commit_dates_append: "commit_dates (xs @ ys) = commit_dates xs @ commit_dates ys"
  by (induction xs rule: commit_dates.induct) auto

lemma tally_errors:
  "tally g fs acc = Inl err \<Longrightarrow> err = CalledProcessError \<or> err = ValueError"
  by (induction fs arbitrary: acc) (auto simp: Let_def split: option.splits list.splits if_splits)

lemma all_tests_errors: "all_tests fs = Inl err \<Longrightarrow> err = IndexError"
  by (induction fs) (auto split: if_splits)

lemma generate_commit_message_errors:
  assumes "generate_commit_message ph g fs = Inl err"
  shows "err = CalledProcessError \<or> err = ValueError \<or> err = IndexError"
proof (cases "tally g fs ([], [])")
  case (Inl e1)
  then have "err = e1" using assms by (auto simp: generate_commit_message_def split: if_splits)
  then show ?thesis using tally_errors[OF Inl] by auto
next
  case (Inr acc)
  obtain k bl where acc: "acc = (k, bl)" by (cases acc)
  show ?thesis
  proof (cases "pick_type k fs")
    case (Inl e2)
    then have "all_tests fs = Inl e2"
      by (auto simp: pick_type_def split: if_splits sum.splits bool.splits)
    then have "e2 = IndexError" by (rule all_tests_errors)
    moreover have "err = e2"
      using assms Inr acc Inl by (auto simp: generate_commit_message_def split: if_splits)
    ultimately show ?thesis by simp
  next
    case ty: (Inr ty)
    then have "shorten (subject_text ty (hd fs)) 50 [ph] = Inl err"
      using assms Inr acc by (auto simp: generate_commit_message_def split: if_splits sum.splits)
    then have "err = ValueError" by (auto simp: shorten_def split: if_splits)
    then show ?thesis by simp
  qed
qed

lemma commit_loop_dates:
  "\<exists>rest. ts = commit_dates (fst (fst (commit_loop e b fs n ts st))) @ rest \<and>
     (snd (commit_loop e b fs n ts st) = Inr () \<longrightarrow> rest = []) \<and>
     (\<forall>m. snd (commit_loop e b fs n ts st) \<noteq> Inl (SystemExit m))"
proof (induction ts arbitrary: n st)
  case Nil
  then show ?case by simp
next
  case (Cons t ts)
  obtain num g1 where r: "py_randint 5 10 (snd st) = (num, g1)"
    by (cases "py_randint 5 10 (snd st)")
  show ?case
  proof (cases "py_sample fs (int (min num (length fs))) g1")
    case (Inl err)
    then have "err = ValueError" by (auto simp: py_sample_def split: if_splits)
    then show ?thesis using r Inl by simp
  next
    case (Inr bg)
    obtain batch g2 where bg: "bg = (batch, g2)" by (cases bg)
    let ?st1 = "touch_files batch (fst st, g2)"
    show ?thesis
    proof (cases "add_ok e n")
      case False
      then show ?thesis using r Inr bg by (simp add: Let_def)
    next
      case add: True
      show ?thesis
      proof (cases "generate_commit_message (ellipsis e) (answers e n) batch")
        case (Inl err)
        then have "\<forall>m. err \<noteq> SystemExit m"
          using generate_commit_message_errors by blast
        then show ?thesis using r Inr bg add Inl by (simp add: Let_def)
      next
        case msg: (Inr msg)
        show ?thesis
        proof (cases "commit_ok e n \<and> push_ok e n")
          case False
          then show ?thesis using r Inr bg add msg
            by (intro exI[of _ ts]) (auto simp: Let_def)
        next
          case True
          obtain rest where ih: "ts = commit_dates (fst (fst (commit_loop e b fs (Suc n) ts ?st1))) @ rest"
            "snd (commit_loop e b fs (Suc n) ts ?st1) = Inr () \<longrightarrow> rest = []"
            "\<forall>m. snd (commit_loop e b fs (Suc n) ts ?st1) \<noteq> Inl (SystemExit m)"
            using Cons.IH[of "Suc n" ?st1] by blast
          show ?thesis
            using r Inr bg add msg True ih
            by (intro exI[of _ rest]) (simp add: Let_def split_beta commit_dates_append)
        qed
      qed
    qed
  qed
qed


lemma backfill_schedule:
  assumes "fromisoformat e start_s = Some s" and "fromisoformat e end_s = Some f"
    and "backfill e st start_s end_s commits branch max_per_day = ((evs, st'), r)"
  shows "\<exists>chosen rest. sort chosen = commit_dates evs @ rest \<and>
     mset chosen \<subseteq># mset (possible_dates s ((f - s) div DAY + 1) max_per_day) \<and>
     (r = Inr () \<longrightarrow> rest = [] \<and> int (length chosen) = commits)"
proof -
  let ?td = "(f - s) div DAY + 1"
  let ?pool = "possible_dates s ?td max_per_day"
  have trivial: "commit_dates evs = [] \<Longrightarrow> r \<noteq> Inr () \<Longrightarrow> ?thesis"
    by (intro exI[of _ "[]"]) simp
  show ?thesis
  proof (cases "?td \<le> 0")
    case True
    then show ?thesis using assms by (intro trivial) (auto simp: backfill_def Let_def)
  next
    case td: False
    show ?thesis
    proof (cases "tracked_files e (fst st)")
      case (Inl err)
      then show ?thesis using assms td by (intro trivial) (auto simp: backfill_def Let_def)
    next
      case (Inr allfiles)
      show ?thesis
      proof (cases "allfiles = [] \<or> int (length ?pool) < commits")
        case True
        then show ?thesis
        proof
          assume "allfiles = []"
          then show ?thesis using assms td Inr by (intro trivial) (auto simp: backfill_def Let_def)
        next
          assume "int (length ?pool) < commits"
          then show ?thesis using assms td Inr
            by (intro trivial) (auto simp: backfill_def Let_def split: if_splits)
        qed
      next
        case cap: False
        show ?thesis
        proof (cases "py_sample ?pool commits (snd st)")
          case (Inl err)
          then show ?thesis using assms td Inr cap by (intro trivial) (auto simp: backfill_def Let_def)
        next
          case smp: (Inr sg)
          obtain sampled g1 where sg: "sg = (sampled, g1)" by (cases sg)
          have k: "0 \<le> commits" "nat commits \<le> length ?pool"
            and sampled: "sampled = fst (sample_pool ?pool (nat commits) (snd st))"
            using smp sg by (auto simp: py_sample_def split: if_splits)
          have ms: "mset sampled \<subseteq># mset ?pool" "length sampled = nat commits"
            using sample_pool_mset[OF k(2), of "snd st"] sampled by simp_all
          show ?thesis
          proof (cases "checkout_ok e")
            case False
            then show ?thesis using assms td Inr cap smp sg
              by (intro trivial) (auto simp: backfill_def Let_def)
          next
            case True
            let ?loop = "commit_loop e branch allfiles 0 (sort sampled) (fst st, g1)"
            have evs: "evs = LsFiles # Checkout branch # fst (fst ?loop)" and r: "r = snd ?loop"
              using assms td Inr cap smp sg True by (auto simp: backfill_def Let_def split_beta)
            obtain rest where rest: "sort sampled = commit_dates (fst (fst ?loop)) @ rest"
                "snd ?loop = Inr () \<longrightarrow> rest = []"
              using commit_loop_dates[of "sort sampled" e branch allfiles 0 "(fst st, g1)"] by blast
            show ?thesis
              using rest ms k evs r by (intro exI[of _ sampled] exI[of _ rest]) auto
          qed
        qed
      qed
    qed
  qed
qed

text \<open>
  C2. The timestamps that the run gives to \<open>git commit\<close> are in ascending order, and each is
  the start plus a whole number of days and lies between the start and the end. When the
  run returns without error there are \<open>commits\<close> of them. This holds for every environment
  and every behaviour of the random source, also for a run that a failing command ends early.
\<close>

theorem commit_timestamps_sorted_in_range:
  assumes "fromisoformat e start_s = Some start_dt" and "fromisoformat e end_s = Some end_dt"
    and "backfill e st start_s end_s commits branch max_per_day = ((evs, st'), r)"
  shows "sorted (commit_dates evs) \<and>
     (\<forall>t\<in>set (commit_dates evs). start_dt \<le> t \<and> t \<le> end_dt \<and> (\<exists>i\<ge>0. t = start_dt + i * DAY)) \<and>
     (r = Inr () \<longrightarrow> int (length (commit_dates evs)) = commits)"
proof -
  obtain chosen rest where c: "sort chosen = commit_dates evs @ rest"
      "mset chosen \<subseteq># mset (possible_dates start_dt ((end_dt - start_dt) div DAY + 1) max_per_day)"
      "r = Inr () \<longrightarrow> rest = [] \<and> int (length chosen) = commits"
    using backfill_schedule[OF assms] by blast
  have "sorted (commit_dates evs @ rest)" using c(1) by (metis sorted_sort)
  then have s: "sorted (commit_dates evs)" by (simp add: sorted_append)
  have mem: "start_dt \<le> t \<and> t \<le> end_dt \<and> (\<exists>i\<ge>0. t = start_dt + i * DAY)"
    if t: "t \<in> set (commit_dates evs)" for t
  proof -
    have "t \<in> set (sort chosen)" using t c(1) by simp
    then have "t \<in># mset chosen" by simp
    then have "t \<in># mset (possible_dates start_dt ((end_dt - start_dt) div DAY + 1) max_per_day)"
      using c(2) by (meson mset_subset_eqD)
    then have "t \<in> set (possible_dates start_dt ((end_dt - start_dt) div DAY + 1) max_per_day)"
      by simp
    then have "\<exists>i. 0 \<le> i \<and> i < (end_dt - start_dt) div DAY + 1 \<and> t = start_dt + i * DAY"
      by (rule possible_dates_member)
    then obtain i where i: "0 \<le> i" "i < (end_dt - start_dt) div DAY + 1" "t = start_dt + i * DAY"
      by blast
    then show ?thesis using in_range[OF i(1,2)] by auto
  qed
  have len: "r = Inr () \<Longrightarrow> int (length (commit_dates evs)) = commits"
  proof -
    assume "r = Inr ()"
    then have "rest = []" "int (length chosen) = commits" using c(3) by simp_all
    moreover have "length (sort chosen) = length chosen" by simp
    ultimately show ?thesis using c(1) by (metis append_Nil2)
  qed
  show ?thesis using s mem len by blast
qed

text \<open>The witness is a run of three commits over two days with at most two a day.\<close>

theorem commit_timestamps_sorted_in_range_witness:
  "fromisoformat \<lparr>fromisoformat = [''2024-01-01'' \<mapsto> 63839664000000000, ''2024-01-02'' \<mapsto> 63839750400000000,
        ''2024-01-05'' \<mapsto> 63840009600000000], ellipsis = CHR ''~'',
      ls_files = Some [[''Makefile'']], checkout_ok = True, add_ok = (\<lambda>n. True),
      commit_ok = (\<lambda>n. True), push_ok = (\<lambda>n. True),
      answers = (\<lambda>n. \<lparr>diff_cached = (\<lambda>p. Some []), numstat = (\<lambda>p. Some [])\<rparr>)\<rparr> ''2024-01-01'' = Some 63839664000000000 \<and>
   fromisoformat \<lparr>fromisoformat = [''2024-01-01'' \<mapsto> 63839664000000000, ''2024-01-02'' \<mapsto> 63839750400000000,
        ''2024-01-05'' \<mapsto> 63840009600000000], ellipsis = CHR ''~'',
      ls_files = Some [[''Makefile'']], checkout_ok = True, add_ok = (\<lambda>n. True),
      commit_ok = (\<lambda>n. True), push_ok = (\<lambda>n. True),
      answers = (\<lambda>n. \<lparr>diff_cached = (\<lambda>p. Some []), numstat = (\<lambda>p. Some [])\<rparr>)\<rparr> ''2024-01-02'' = Some 63839750400000000 \<and>
   backfill
     \<lparr>fromisoformat = [''2024-01-01'' \<mapsto> 63839664000000000, ''2024-01-02'' \<mapsto> 63839750400000000,
        ''2024-01-05'' \<mapsto> 63840009600000000], ellipsis = CHR ''~'',
      ls_files = Some [[''Makefile'']], checkout_ok = True, add_ok = (\<lambda>n. True),
      commit_ok = (\<lambda>n. True), push_ok = (\<lambda>n. True),
      answers = (\<lambda>n. \<lparr>diff_cached = (\<lambda>p. Some []), numstat = (\<lambda>p. Some [])\<rparr>)\<rparr>
     ([[''Makefile''] \<mapsto> \<lparr>content = Some ''all:\<newline>'', st_size = 5, writable = True\<rparr>], 3 ## 2 ## sconst 0)
     ''2024-01-01'' ''2024-01-02'' 3 ''main'' 2
   = (([LsFiles, Checkout ''main'',
        Add [[''Makefile'']], Commit ''chore: update Makefile\<newline>'' 63839664000000000,
        Push ''main'', Print 738885 ''chore: update Makefile\<newline>'',
        Add [[''Makefile'']], Commit ''chore: update Makefile\<newline>'' 63839750400000000,
        Push ''main'', Print 738886 ''chore: update Makefile\<newline>'',
        Add [[''Makefile'']], Commit ''chore: update Makefile\<newline>'' 63839750400000000,
        Push ''main'', Print 738886 ''chore: update Makefile\<newline>''],
       ([[''Makefile''] \<mapsto> \<lparr>content = Some ''all:\<newline>'', st_size = 5, writable = True\<rparr>], sconst 0)), Inr ()) \<and>
   commit_dates [LsFiles, Checkout ''main'',
        Add [[''Makefile'']], Commit ''chore: update Makefile\<newline>'' 63839664000000000,
        Push ''main'', Print 738885 ''chore: update Makefile\<newline>'',
        Add [[''Makefile'']], Commit ''chore: update Makefile\<newline>'' 63839750400000000,
        Push ''main'', Print 738886 ''chore: update Makefile\<newline>'',
        Add [[''Makefile'']], Commit ''chore: update Makefile\<newline>'' 63839750400000000,
        Push ''main'', Print 738886 ''chore: update Makefile\<newline>''] = [63839664000000000, 63839750400000000, 63839750400000000] \<and>
   sorted [63839664000000000, 63839750400000000, 63839750400000000 :: int] \<and>
   (63839664000000000 :: int) \<le> 63839664000000000 \<and> (63839664000000000 :: int) \<le> 63839750400000000 \<and>
   (63839750400000000 :: int) \<le> 63839750400000000 \<and>
   63839750400000000 = 63839664000000000 + 1 * DAY \<and>
   int (length [63839664000000000, 63839750400000000, 63839750400000000 :: int]) = 3"
proof -
  have d: "commit_dates [LsFiles, Checkout ''main'',
        Add [[''Makefile'']], Commit ''chore: update Makefile\<newline>'' 63839664000000000,
        Push ''main'', Print 738885 ''chore: update Makefile\<newline>'',
        Add [[''Makefile'']], Commit ''chore: update Makefile\<newline>'' 63839750400000000,
        Push ''main'', Print 738886 ''chore: update Makefile\<newline>'',
        Add [[''Makefile'']], Commit ''chore: update Makefile\<newline>'' 63839750400000000,
        Push ''main'', Print 738886 ''chore: update Makefile\<newline>''] = [63839664000000000, 63839750400000000, 63839750400000000]"
    by simp
  have c: "sorted [63839664000000000, 63839750400000000, 63839750400000000 :: int] \<and>
      (63839664000000000 :: int) \<le> 63839664000000000 \<and> (63839664000000000 :: int) \<le> 63839750400000000 \<and>
      (63839750400000000 :: int) \<le> 63839750400000000 \<and>
      63839750400000000 = 63839664000000000 + 1 * DAY \<and>
      int (length [63839664000000000, 63839750400000000, 63839750400000000 :: int]) = 3"
    using commit_timestamps_sorted_in_range[OF parse_dates(1) parse_dates(2) run_two_days]
    by (simp add: DAY_def)
  show ?thesis
    by (rule conjI[OF parse_dates(1) conjI[OF parse_dates(2) conjI[OF run_two_days conjI[OF d c]]]])
qed

text \<open>
  C3. For every day, at most \<open>max_per_day\<close> of the timestamps that the run gives to
  \<open>git commit\<close> fall on that day.
\<close>

theorem commits_per_day_bounded:
  assumes "fromisoformat e start_s = Some start_dt" and "fromisoformat e end_s = Some end_dt"
    and "backfill e st start_s end_s commits branch max_per_day = ((evs, st'), r)"
  shows "length (filter (\<lambda>t. date t = d) (commit_dates evs)) \<le> nat max_per_day"
proof -
  let ?P = "\<lambda>t. date t = d"
  let ?pool = "possible_dates start_dt ((end_dt - start_dt) div DAY + 1) max_per_day"
  obtain chosen rest where c: "sort chosen = commit_dates evs @ rest"
      "mset chosen \<subseteq># mset ?pool"
    using backfill_schedule[OF assms] by blast
  have "length (filter ?P (commit_dates evs)) \<le> length (filter ?P (sort chosen))"
    using c(1) by simp
  also have "\<dots> = size (filter_mset ?P (mset (sort chosen)))"
    by (metis mset_filter size_mset)
  also have "\<dots> = size (filter_mset ?P (mset chosen))" by simp
  also have "\<dots> \<le> size (filter_mset ?P (mset ?pool))"
    using c(2) by (intro size_mset_mono multiset_filter_mono)
  also have "\<dots> = length (filter ?P ?pool)"
    by (metis mset_filter size_mset)
  also have "\<dots> \<le> nat max_per_day" by (rule possible_dates_count)
  finally show ?thesis .
qed

text \<open>In the witness the second of the two days gets two commits, its whole share.\<close>

theorem commits_per_day_bounded_witness:
  "fromisoformat \<lparr>fromisoformat = [''2024-01-01'' \<mapsto> 63839664000000000, ''2024-01-02'' \<mapsto> 63839750400000000,
        ''2024-01-05'' \<mapsto> 63840009600000000], ellipsis = CHR ''~'',
      ls_files = Some [[''Makefile'']], checkout_ok = True, add_ok = (\<lambda>n. True),
      commit_ok = (\<lambda>n. True), push_ok = (\<lambda>n. True),
      answers = (\<lambda>n. \<lparr>diff_cached = (\<lambda>p. Some []), numstat = (\<lambda>p. Some [])\<rparr>)\<rparr> ''2024-01-01'' = Some 63839664000000000 \<and>
   fromisoformat \<lparr>fromisoformat = [''2024-01-01'' \<mapsto> 63839664000000000, ''2024-01-02'' \<mapsto> 63839750400000000,
        ''2024-01-05'' \<mapsto> 63840009600000000], ellipsis = CHR ''~'',
      ls_files = Some [[''Makefile'']], checkout_ok = True, add_ok = (\<lambda>n. True),
      commit_ok = (\<lambda>n. True), push_ok = (\<lambda>n. True),
      answers = (\<lambda>n. \<lparr>diff_cached = (\<lambda>p. Some []), numstat = (\<lambda>p. Some [])\<rparr>)\<rparr> ''2024-01-02'' = Some 63839750400000000 \<and>
   backfill
     \<lparr>fromisoformat = [''2024-01-01'' \<mapsto> 63839664000000000, ''2024-01-02'' \<mapsto> 63839750400000000,
        ''2024-01-05'' \<mapsto> 63840009600000000], ellipsis = CHR ''~'',
      ls_files = Some [[''Makefile'']], checkout_ok = True, add_ok = (\<lambda>n. True),
      commit_ok = (\<lambda>n. True), push_ok = (\<lambda>n. True),
      answers = (\<lambda>n. \<lparr>diff_cached = (\<lambda>p. Some []), numstat = (\<lambda>p. Some [])\<rparr>)\<rparr>
     ([[''Makefile''] \<mapsto> \<lparr>content = Some ''all:\<newline>'', st_size = 5, writable = True\<rparr>], 3 ## 2 ## sconst 0)
     ''2024-01-01'' ''2024-01-02'' 3 ''main'' 2
   = (([LsFiles, Checkout ''main'',
        Add [[''Makefile'']], Commit ''chore: update Makefile\<newline>'' 63839664000000000,
        Push ''main'', Print 738885 ''chore: update Makefile\<newline>'',
        Add [[''Makefile'']], Commit ''chore: update Makefile\<newline>'' 63839750400000000,
        Push ''main'', Print 738886 ''chore: update Makefile\<newline>'',
        Add [[''Makefile'']], Commit ''chore: update Makefile\<newline>'' 63839750400000000,
        Push ''main'', Print 738886 ''chore: update Makefile\<newline>''],
       ([[''Makefile''] \<mapsto> \<lparr>content = Some ''all:\<newline>'', st_size = 5, writable = True\<rparr>], sconst 0)), Inr ()) \<and>
   length (filter (\<lambda>t. date t = 738886) [63839664000000000, 63839750400000000, 63839750400000000]) = 2 \<and>
   length (filter (\<lambda>t. date t = 738886) (commit_dates [LsFiles, Checkout ''main'',
        Add [[''Makefile'']], Commit ''chore: update Makefile\<newline>'' 63839664000000000,
        Push ''main'', Print 738885 ''chore: update Makefile\<newline>'',
        Add [[''Makefile'']], Commit ''chore: update Makefile\<newline>'' 63839750400000000,
        Push ''main'', Print 738886 ''chore: update Makefile\<newline>'',
        Add [[''Makefile'']], Commit ''chore: update Makefile\<newline>'' 63839750400000000,
        Push ''main'', Print 738886 ''chore: update Makefile\<newline>''])) \<le> nat 2"
proof -
  have n: "length (filter (\<lambda>t. date t = 738886) [63839664000000000, 63839750400000000, 63839750400000000]) = 2"
    by (simp add: date_def DAY_def)
  show ?thesis
    by (rule conjI[OF parse_dates(1) conjI[OF parse_dates(2) conjI[OF run_two_days conjI[OF n
      commits_per_day_bounded[OF parse_dates(1) parse_dates(2) run_two_days]]]]])
qed

subsection \<open>Rejected runs\<close>

lemma total_days_pos: "0 < (f - s) div DAY + 1 \<longleftrightarrow> s \<le> (f :: int)"
proof -
  have "0 \<le> (f - s) div DAY \<longleftrightarrow> 0 \<le> f - s"
    using DAY_pos by (simp add: pos_imp_zdiv_nonneg_iff)
  then show ?thesis by auto
qed

lemma capacity_message_other:
  "capacity_message c a b m \<noteq> ''End date must be after start date.''"
  "capacity_message c a b m \<noteq> ''No tracked or unignored files found.''"
  "''End date must be after start date.'' \<noteq> capacity_message c a b m"
  "''No tracked or unignored files found.'' \<noteq> capacity_message c a b m"
  by (simp_all add: capacity_message_def)

lemma backfill_early:
  assumes "fromisoformat e start_s = Some s" and "fromisoformat e end_s = Some f" and "s \<le> f"
  shows "tracked_files e (fst st) = Inl err \<Longrightarrow>
      backfill e st start_s end_s commits branch max_per_day = (([LsFiles], st), Inl err)"
    and "tracked_files e (fst st) = Inr [] \<Longrightarrow>
      backfill e st start_s end_s commits branch max_per_day =
        (([LsFiles], st), Inl (SystemExit ''No tracked or unignored files found.''))"
    and "tracked_files e (fst st) = Inr allfiles \<Longrightarrow> allfiles \<noteq> [] \<Longrightarrow>
      int (length (possible_dates s ((f - s) div DAY + 1) max_per_day)) < commits \<Longrightarrow>
      backfill e st start_s end_s commits branch max_per_day =
        (([LsFiles], st), Inl (SystemExit (capacity_message commits start_s end_s max_per_day)))"
proof -
  have td: "\<not> (f - s) div DAY + 1 \<le> 0" using assms(3) total_days_pos[of f s] by simp
  show "tracked_files e (fst st) = Inl err \<Longrightarrow>
      backfill e st start_s end_s commits branch max_per_day = (([LsFiles], st), Inl err)"
    using assms td by (simp add: backfill_def Let_def)
  show "tracked_files e (fst st) = Inr [] \<Longrightarrow>
      backfill e st start_s end_s commits branch max_per_day =
        (([LsFiles], st), Inl (SystemExit ''No tracked or unignored files found.''))"
    using assms td by (simp add: backfill_def Let_def)
  show "tracked_files e (fst st) = Inr allfiles \<Longrightarrow> allfiles \<noteq> [] \<Longrightarrow>
      int (length (possible_dates s ((f - s) div DAY + 1) max_per_day)) < commits \<Longrightarrow>
      backfill e st start_s end_s commits branch max_per_day =
        (([LsFiles], st), Inl (SystemExit (capacity_message commits start_s end_s max_per_day)))"
    using assms td by (simp add: backfill_def Let_def)
qed

lemma tracked_files_error: "tracked_files e t = Inl err \<Longrightarrow> err = CalledProcessError"
  by (auto simp: tracked_files_def split: option.splits)

lemma backfill_no_system_exit_later:
  assumes "fromisoformat e start_s = Some s" and "fromisoformat e end_s = Some f"
    and "s \<le> f" and "tracked_files e (fst st) = Inr allfiles" and "allfiles \<noteq> []"
    and "\<not> int (length (possible_dates s ((f - s) div DAY + 1) max_per_day)) < commits"
  shows "snd (backfill e st start_s end_s commits branch max_per_day) \<noteq> Inl (SystemExit m)"
proof -
  let ?pool = "possible_dates s ((f - s) div DAY + 1) max_per_day"
  have td: "\<not> (f - s) div DAY + 1 \<le> 0" using assms(3) total_days_pos[of f s] by simp
  show ?thesis
  proof (cases "py_sample ?pool commits (snd st)")
    case (Inl err)
    then have "err = ValueError" by (auto simp: py_sample_def split: if_splits)
    then show ?thesis using assms td Inl by (simp add: backfill_def Let_def)
  next
    case (Inr sg)
    obtain sampled g1 where sg: "sg = (sampled, g1)" by (cases sg)
    show ?thesis
    proof (cases "checkout_ok e")
      case False
      then show ?thesis using assms td Inr sg by (simp add: backfill_def Let_def)
    next
      case True
      have "snd (backfill e st start_s end_s commits branch max_per_day) =
          snd (commit_loop e branch allfiles 0 (sort sampled) (fst st, g1))"
        using assms td Inr sg True by (simp add: backfill_def Let_def split_beta)
      then show ?thesis
        using commit_loop_dates[of "sort sampled" e branch allfiles 0 "(fst st, g1)"] by auto
    qed
  qed
qed

lemma end_before_start_rejected_aux:
  assumes "fromisoformat e start_s = Some start_dt" and "fromisoformat e end_s = Some end_dt"
    and "end_dt < start_dt"
  shows "backfill e st start_s end_s commits branch max_per_day =
         (([], st), Inl (SystemExit ''End date must be after start date.''))"
proof -
  have "(end_dt - start_dt) div DAY + 1 \<le> 0"
    using assms(3) total_days_pos[of end_dt start_dt] by simp
  then show ?thesis using assms by (simp add: backfill_def Let_def)
qed

text \<open>
  C4. As the claim states it, it fails when the end equals the start: the range then has one
  day. The run below lists the files, makes its commit and returns without error.
\<close>

theorem equal_dates_counterexample:
  "fromisoformat \<lparr>fromisoformat = [''2024-01-01'' \<mapsto> 63839664000000000, ''2024-01-02'' \<mapsto> 63839750400000000,
        ''2024-01-05'' \<mapsto> 63840009600000000], ellipsis = CHR ''~'',
      ls_files = Some [[''Makefile'']], checkout_ok = True, add_ok = (\<lambda>n. True),
      commit_ok = (\<lambda>n. True), push_ok = (\<lambda>n. True),
      answers = (\<lambda>n. \<lparr>diff_cached = (\<lambda>p. Some []), numstat = (\<lambda>p. Some [])\<rparr>)\<rparr> ''2024-01-01'' = Some 63839664000000000 \<and>
   (63839664000000000 :: int) \<le> 63839664000000000 \<and>
   backfill
     \<lparr>fromisoformat = [''2024-01-01'' \<mapsto> 63839664000000000, ''2024-01-02'' \<mapsto> 63839750400000000,
        ''2024-01-05'' \<mapsto> 63840009600000000], ellipsis = CHR ''~'',
      ls_files = Some [[''Makefile'']], checkout_ok = True, add_ok = (\<lambda>n. True),
      commit_ok = (\<lambda>n. True), push_ok = (\<lambda>n. True),
      answers = (\<lambda>n. \<lparr>diff_cached = (\<lambda>p. Some []), numstat = (\<lambda>p. Some [])\<rparr>)\<rparr>
     ([[''Makefile''] \<mapsto> \<lparr>content = Some ''all:\<newline>'', st_size = 5, writable = True\<rparr>], sconst 0)
     ''2024-01-01'' ''2024-01-01'' 1 ''main'' 3
   = (([LsFiles, Checkout ''main'', Add [[''Makefile'']], Commit ''chore: update Makefile\<newline>'' 63839664000000000,
        Push ''main'', Print 738885 ''chore: update Makefile\<newline>''],
       ([[''Makefile''] \<mapsto> \<lparr>content = Some ''all:\<newline>'', st_size = 5, writable = True\<rparr>], sconst 0)), Inr ())"
proof -
  have le: "(63839664000000000 :: int) \<le> 63839664000000000"
    by simp
  show ?thesis
    by (rule conjI[OF parse_dates(1) conjI[OF le run_one_day]])
qed

text \<open>
  C4, amended. When the end is earlier than the start, \<open>backfill\<close> raises \<open>SystemExit\<close> with the
  message "End date must be after start date.", with no command run and the working tree
  and the random source as they were. When the end is the start or later, the run does not
  end with this error.
\<close>

theorem end_before_start_rejected:
  assumes "fromisoformat e start_s = Some start_dt" and "fromisoformat e end_s = Some end_dt"
  shows "(end_dt < start_dt \<longrightarrow>
       backfill e st start_s end_s commits branch max_per_day =
         (([], st), Inl (SystemExit ''End date must be after start date.''))) \<and>
     (start_dt \<le> end_dt \<longrightarrow>
       snd (backfill e st start_s end_s commits branch max_per_day) \<noteq>
         Inl (SystemExit ''End date must be after start date.''))"
proof (intro conjI impI)
  assume "end_dt < start_dt"
  then show "backfill e st start_s end_s commits branch max_per_day =
         (([], st), Inl (SystemExit ''End date must be after start date.''))"
    using assms by (intro end_before_start_rejected_aux)
next
  assume le: "start_dt \<le> end_dt"
  let ?pool = "possible_dates start_dt ((end_dt - start_dt) div DAY + 1) max_per_day"
  show "snd (backfill e st start_s end_s commits branch max_per_day) \<noteq>
         Inl (SystemExit ''End date must be after start date.'')"
  proof (cases "tracked_files e (fst st)")
    case (Inl err)
    then show ?thesis
      using backfill_early(1)[OF assms le Inl] tracked_files_error[OF Inl] by simp
  next
    case (Inr allfiles)
    show ?thesis
    proof (cases "allfiles = []")
      case True
      then show ?thesis using backfill_early(2)[OF assms le] Inr by simp
    next
      case ne: False
      show ?thesis
      proof (cases "int (length ?pool) < commits")
        case True
        then show ?thesis
          using backfill_early(3)[OF assms le Inr ne] by (simp add: capacity_message_other)
      next
        case False
        then show ?thesis using backfill_no_system_exit_later[OF assms le Inr ne] by simp
      qed
    qed
  qed
qed

text \<open>The witness swaps the two dates of a run that succeeds.\<close>

theorem end_before_start_rejected_witness:
  "fromisoformat \<lparr>fromisoformat = [''2024-01-01'' \<mapsto> 63839664000000000, ''2024-01-02'' \<mapsto> 63839750400000000,
        ''2024-01-05'' \<mapsto> 63840009600000000], ellipsis = CHR ''~'',
      ls_files = Some [[''Makefile'']], checkout_ok = True, add_ok = (\<lambda>n. True),
      commit_ok = (\<lambda>n. True), push_ok = (\<lambda>n. True),
      answers = (\<lambda>n. \<lparr>diff_cached = (\<lambda>p. Some []), numstat = (\<lambda>p. Some [])\<rparr>)\<rparr> ''2024-01-02'' = Some 63839750400000000 \<and>
   fromisoformat \<lparr>fromisoformat = [''2024-01-01'' \<mapsto> 63839664000000000, ''2024-01-02'' \<mapsto> 63839750400000000,
        ''2024-01-05'' \<mapsto> 63840009600000000], ellipsis = CHR ''~'',
      ls_files = Some [[''Makefile'']], checkout_ok = True, add_ok = (\<lambda>n. True),
      commit_ok = (\<lambda>n. True), push_ok = (\<lambda>n. True),
      answers = (\<lambda>n. \<lparr>diff_cached = (\<lambda>p. Some []), numstat = (\<lambda>p. Some [])\<rparr>)\<rparr> ''2024-01-01'' = Some 63839664000000000 \<and>
   (63839664000000000 :: int) < 63839750400000000 \<and>
   backfill
     \<lparr>fromisoformat = [''2024-01-01'' \<mapsto> 63839664000000000, ''2024-01-02'' \<mapsto> 63839750400000000,
        ''2024-01-05'' \<mapsto> 63840009600000000], ellipsis = CHR ''~'',
      ls_files = Some [[''Makefile'']], checkout_ok = True, add_ok = (\<lambda>n. True),
      commit_ok = (\<lambda>n. True), push_ok = (\<lambda>n. True),
      answers = (\<lambda>n. \<lparr>diff_cached = (\<lambda>p. Some []), numstat = (\<lambda>p. Some [])\<rparr>)\<rparr>
     ([[''Makefile''] \<mapsto> \<lparr>content = Some ''all:\<newline>'', st_size = 5, writable = True\<rparr>], sconst 0)
     ''2024-01-02'' ''2024-01-01'' 5 ''main'' 3
   = (([], ([[''Makefile''] \<mapsto> \<lparr>content = Some ''all:\<newline>'', st_size = 5, writable = True\<rparr>], sconst 0)), Inl (SystemExit ''End date must be after start date.'')) \<and>
   (63839664000000000 :: int) \<le> 63839750400000000 \<and>
   snd (backfill
     \<lparr>fromisoformat = [''2024-01-01'' \<mapsto> 63839664000000000, ''2024-01-02'' \<mapsto> 63839750400000000,
        ''2024-01-05'' \<mapsto> 63840009600000000], ellipsis = CHR ''~'',
      ls_files = Some [[''Makefile'']], checkout_ok = True, add_ok = (\<lambda>n. True),
      commit_ok = (\<lambda>n. True), push_ok = (\<lambda>n. True),
      answers = (\<lambda>n. \<lparr>diff_cached = (\<lambda>p. Some []), numstat = (\<lambda>p. Some [])\<rparr>)\<rparr>
     ([[''Makefile''] \<mapsto> \<lparr>content = Some ''all:\<newline>'', st_size = 5, writable = True\<rparr>], 3 ## 2 ## sconst 0)
     ''2024-01-01'' ''2024-01-02'' 3 ''main'' 2)
     \<noteq> Inl (SystemExit ''End date must be after start date.'')"
proof -
  have lt: "(63839664000000000 :: int) < 63839750400000000" and le: "(63839664000000000 :: int) \<le> 63839750400000000"
    by simp_all
  have a: "backfill
     \<lparr>fromisoformat = [''2024-01-01'' \<mapsto> 63839664000000000, ''2024-01-02'' \<mapsto> 63839750400000000,
        ''2024-01-05'' \<mapsto> 63840009600000000], ellipsis = CHR ''~'',
      ls_files = Some [[''Makefile'']], checkout_ok = True, add_ok = (\<lambda>n. True),
      commit_ok = (\<lambda>n. True), push_ok = (\<lambda>n. True),
      answers = (\<lambda>n. \<lparr>diff_cached = (\<lambda>p. Some []), numstat = (\<lambda>p. Some [])\<rparr>)\<rparr>
     ([[''Makefile''] \<mapsto> \<lparr>content = Some ''all:\<newline>'', st_size = 5, writable = True\<rparr>], sconst 0)
     ''2024-01-02'' ''2024-01-01'' 5 ''main'' 3
   = (([], ([[''Makefile''] \<mapsto> \<lparr>content = Some ''all:\<newline>'', st_size = 5, writable = True\<rparr>], sconst 0)), Inl (SystemExit ''End date must be after start date.''))"
    using end_before_start_rejected[OF parse_dates(2) parse_dates(1),
      of "([[''Makefile''] \<mapsto> \<lparr>content = Some ''all:\<newline>'', st_size = 5, writable = True\<rparr>], sconst 0)" 5 "''main''" 3] lt
    by blast
  have b: "snd (backfill
     \<lparr>fromisoformat = [''2024-01-01'' \<mapsto> 63839664000000000, ''2024-01-02'' \<mapsto> 63839750400000000,
        ''2024-01-05'' \<mapsto> 63840009600000000], ellipsis = CHR ''~'',
      ls_files = Some [[''Makefile'']], checkout_ok = True, add_ok = (\<lambda>n. True),
      commit_ok = (\<lambda>n. True), push_ok = (\<lambda>n. True),
      answers = (\<lambda>n. \<lparr>diff_cached = (\<lambda>p. Some []), numstat = (\<lambda>p. Some [])\<rparr>)\<rparr>
     ([[''Makefile''] \<mapsto> \<lparr>content = Some ''all:\<newline>'', st_size = 5, writable = True\<rparr>], 3 ## 2 ## sconst 0)
     ''2024-01-01'' ''2024-01-02'' 3 ''main'' 2)
     \<noteq> Inl (SystemExit ''End date must be after start date.'')"
    using end_before_start_rejected[OF parse_dates(1) parse_dates(2),
      of "([[''Makefile''] \<mapsto> \<lparr>content = Some ''all:\<newline>'', st_size = 5, writable = True\<rparr>], 3 ## 2 ## sconst 0)" 3 "''main''" 2] le
    by blast
  show ?thesis
    by (rule conjI[OF parse_dates(2) conjI[OF parse_dates(1) conjI[OF lt conjI[OF a conjI[OF le b]]]]])
qed

text \<open>
  C1. As the claim states it, it fails for a negative \<open>max_per_day\<close>: the pool of dates is
  then empty, its length \<open>0\<close> is not below \<open>commits = 0\<close>, and the run returns without error
  though \<open>0\<close> exceeds \<open>total_days \<times> max_per_day = -2\<close>.
\<close>

theorem negative_max_per_day_counterexample:
  "fromisoformat \<lparr>fromisoformat = [''2024-01-01'' \<mapsto> 63839664000000000, ''2024-01-02'' \<mapsto> 63839750400000000,
        ''2024-01-05'' \<mapsto> 63840009600000000], ellipsis = CHR ''~'',
      ls_files = Some [[''Makefile'']], checkout_ok = True, add_ok = (\<lambda>n. True),
      commit_ok = (\<lambda>n. True), push_ok = (\<lambda>n. True),
      answers = (\<lambda>n. \<lparr>diff_cached = (\<lambda>p. Some []), numstat = (\<lambda>p. Some [])\<rparr>)\<rparr> ''2024-01-01'' = Some 63839664000000000 \<and>
   fromisoformat \<lparr>fromisoformat = [''2024-01-01'' \<mapsto> 63839664000000000, ''2024-01-02'' \<mapsto> 63839750400000000,
        ''2024-01-05'' \<mapsto> 63840009600000000], ellipsis = CHR ''~'',
      ls_files = Some [[''Makefile'']], checkout_ok = True, add_ok = (\<lambda>n. True),
      commit_ok = (\<lambda>n. True), push_ok = (\<lambda>n. True),
      answers = (\<lambda>n. \<lparr>diff_cached = (\<lambda>p. Some []), numstat = (\<lambda>p. Some [])\<rparr>)\<rparr> ''2024-01-02'' = Some 63839750400000000 \<and>
   ((63839750400000000 - 63839664000000000) div DAY + 1) * (- 1) < (0 :: int) \<and>
   backfill
     \<lparr>fromisoformat = [''2024-01-01'' \<mapsto> 63839664000000000, ''2024-01-02'' \<mapsto> 63839750400000000,
        ''2024-01-05'' \<mapsto> 63840009600000000], ellipsis = CHR ''~'',
      ls_files = Some [[''Makefile'']], checkout_ok = True, add_ok = (\<lambda>n. True),
      commit_ok = (\<lambda>n. True), push_ok = (\<lambda>n. True),
      answers = (\<lambda>n. \<lparr>diff_cached = (\<lambda>p. Some []), numstat = (\<lambda>p. Some [])\<rparr>)\<rparr>
     ([[''Makefile''] \<mapsto> \<lparr>content = Some ''all:\<newline>'', st_size = 5, writable = True\<rparr>], sconst 0)
     ''2024-01-01'' ''2024-01-02'' 0 ''main'' (- 1)
   = (([LsFiles, Checkout ''main''], ([[''Makefile''] \<mapsto> \<lparr>content = Some ''all:\<newline>'', st_size = 5, writable = True\<rparr>], sconst 0)), Inr ())"
proof -
  have lt: "((63839750400000000 - 63839664000000000) div DAY + 1) * (- 1) < (0 :: int)"
    by (simp add: DAY_def)
  show ?thesis
    by (rule conjI[OF parse_dates(1) conjI[OF parse_dates(2) conjI[OF lt run_negative]]])
qed

text \<open>
  C1, amended. For \<open>max_per_day \<ge> 0\<close>: when \<open>commits\<close> exceeds \<open>total_days \<times> max_per_day\<close> the
  run ends with an error before \<open>checkout\<close>, having at most listed the files, and the error is
  the \<open>SystemExit\<close> of the capacity check when the range is not empty and files are found;
  when \<open>commits\<close> is at most \<open>total_days \<times> max_per_day\<close> the run does not end with that error.
\<close>

theorem capacity_check:
  assumes "fromisoformat e start_s = Some start_dt" and "fromisoformat e end_s = Some end_dt"
    and "0 \<le> max_per_day"
  shows "(((end_dt - start_dt) div DAY + 1) * max_per_day < commits \<longrightarrow>
       (\<exists>err. snd (backfill e st start_s end_s commits branch max_per_day) = Inl err) \<and>
       fst (backfill e st start_s end_s commits branch max_per_day) \<in> {([], st), ([LsFiles], st)} \<and>
       (start_dt \<le> end_dt \<and> (\<exists>allfiles. tracked_files e (fst st) = Inr allfiles \<and> allfiles \<noteq> []) \<longrightarrow>
          snd (backfill e st start_s end_s commits branch max_per_day) =
            Inl (SystemExit (capacity_message commits start_s end_s max_per_day)))) \<and>
     (commits \<le> ((end_dt - start_dt) div DAY + 1) * max_per_day \<longrightarrow>
       snd (backfill e st start_s end_s commits branch max_per_day) \<noteq>
         Inl (SystemExit (capacity_message commits start_s end_s max_per_day)))"
proof -
  let ?td = "(end_dt - start_dt) div DAY + 1"
  let ?pool = "possible_dates start_dt ?td max_per_day"
  let ?run = "backfill e st start_s end_s commits branch max_per_day"
  have len: "start_dt \<le> end_dt \<Longrightarrow> int (length ?pool) = ?td * max_per_day"
    using assms(3) total_days_pos[of end_dt start_dt] by (simp add: possible_dates_length)
  have over: "(\<exists>err. snd ?run = Inl err) \<and> fst ?run \<in> {([], st), ([LsFiles], st)} \<and>
       (start_dt \<le> end_dt \<and> (\<exists>allfiles. tracked_files e (fst st) = Inr allfiles \<and> allfiles \<noteq> []) \<longrightarrow>
          snd ?run = Inl (SystemExit (capacity_message commits start_s end_s max_per_day)))"
    if big: "?td * max_per_day < commits"
  proof (cases "end_dt < start_dt")
    case True
    then have "?run = (([], st), Inl (SystemExit ''End date must be after start date.''))"
      using assms(1,2) by (intro end_before_start_rejected_aux)
    then show ?thesis using True by simp
  next
    case False
    then have le: "start_dt \<le> end_dt" by simp
    then have td: "\<not> ?td \<le> 0" using total_days_pos[of end_dt start_dt] by simp
    have cap: "int (length ?pool) < commits" using len[OF le] big by simp
    show ?thesis
    proof (cases "tracked_files e (fst st)")
      case (Inl err)
      then show ?thesis using backfill_early(1)[OF assms(1,2) le Inl] by simp
    next
      case (Inr allfiles)
      show ?thesis
      proof (cases "allfiles = []")
        case True
        then show ?thesis using backfill_early(2)[OF assms(1,2) le] Inr by simp
      next
        case ne: False
        show ?thesis using backfill_early(3)[OF assms(1,2) le Inr ne cap] Inr ne by simp
      qed
    qed
  qed
  have under: "snd ?run \<noteq> Inl (SystemExit (capacity_message commits start_s end_s max_per_day))"
    if small: "commits \<le> ?td * max_per_day"
  proof (cases "end_dt < start_dt")
    case True
    then show ?thesis
      using end_before_start_rejected_aux[OF assms(1,2) True]
      by (simp add: capacity_message_other)
  next
    case False
    then have le: "start_dt \<le> end_dt" by simp
    have cap: "\<not> int (length ?pool) < commits" using len[OF le] small by simp
    show ?thesis
    proof (cases "tracked_files e (fst st)")
      case (Inl err)
      then show ?thesis
        using backfill_early(1)[OF assms(1,2) le Inl] tracked_files_error[OF Inl] by simp
    next
      case (Inr allfiles)
      show ?thesis
      proof (cases "allfiles = []")
        case True
        then show ?thesis
          using backfill_early(2)[OF assms(1,2) le] Inr
          by (simp add: capacity_message_other)
      next
        case ne: False
        show ?thesis using backfill_no_system_exit_later[OF assms(1,2) le Inr ne cap] by simp
      qed
    qed
  qed
  show ?thesis using over under by blast
qed

text \<open>The witness has the two scenarios: five commits in one day of three, and five commits
  in five days of three.\<close>

theorem capacity_check_witness:
  "fromisoformat \<lparr>fromisoformat = [''2024-01-01'' \<mapsto> 63839664000000000, ''2024-01-02'' \<mapsto> 63839750400000000,
        ''2024-01-05'' \<mapsto> 63840009600000000], ellipsis = CHR ''~'',
      ls_files = Some [[''Makefile'']], checkout_ok = True, add_ok = (\<lambda>n. True),
      commit_ok = (\<lambda>n. True), push_ok = (\<lambda>n. True),
      answers = (\<lambda>n. \<lparr>diff_cached = (\<lambda>p. Some []), numstat = (\<lambda>p. Some [])\<rparr>)\<rparr> ''2024-01-01'' = Some 63839664000000000 \<and>
   fromisoformat \<lparr>fromisoformat = [''2024-01-01'' \<mapsto> 63839664000000000, ''2024-01-02'' \<mapsto> 63839750400000000,
        ''2024-01-05'' \<mapsto> 63840009600000000], ellipsis = CHR ''~'',
      ls_files = Some [[''Makefile'']], checkout_ok = True, add_ok = (\<lambda>n. True),
      commit_ok = (\<lambda>n. True), push_ok = (\<lambda>n. True),
      answers = (\<lambda>n. \<lparr>diff_cached = (\<lambda>p. Some []), numstat = (\<lambda>p. Some [])\<rparr>)\<rparr> ''2024-01-05'' = Some 63840009600000000 \<and>
   (0 :: int) \<le> 3 \<and>
   ((63839664000000000 - 63839664000000000) div DAY + 1) * 3 < (5 :: int) \<and>
   snd (backfill
     \<lparr>fromisoformat = [''2024-01-01'' \<mapsto> 63839664000000000, ''2024-01-02'' \<mapsto> 63839750400000000,
        ''2024-01-05'' \<mapsto> 63840009600000000], ellipsis = CHR ''~'',
      ls_files = Some [[''Makefile'']], checkout_ok = True, add_ok = (\<lambda>n. True),
      commit_ok = (\<lambda>n. True), push_ok = (\<lambda>n. True),
      answers = (\<lambda>n. \<lparr>diff_cached = (\<lambda>p. Some []), numstat = (\<lambda>p. Some [])\<rparr>)\<rparr>
     ([[''Makefile''] \<mapsto> \<lparr>content = Some ''all:\<newline>'', st_size = 5, writable = True\<rparr>], sconst 0)
     ''2024-01-01'' ''2024-01-01'' 5 ''main'' 3)
     = Inl (SystemExit (capacity_message 5 ''2024-01-01'' ''2024-01-01'' 3)) \<and>
   capacity_message 5 ''2024-01-01'' ''2024-01-01'' 3 = ''Cannot fit 5 commits into range 2024-01-01 to 2024-01-01 with max 3 per day.'' \<and>
   (5 :: int) \<le> ((63840009600000000 - 63839664000000000) div DAY + 1) * 3 \<and>
   snd (backfill
     \<lparr>fromisoformat = [''2024-01-01'' \<mapsto> 63839664000000000, ''2024-01-02'' \<mapsto> 63839750400000000,
        ''2024-01-05'' \<mapsto> 63840009600000000], ellipsis = CHR ''~'',
      ls_files = Some [[''Makefile'']], checkout_ok = True, add_ok = (\<lambda>n. True),
      commit_ok = (\<lambda>n. True), push_ok = (\<lambda>n. True),
      answers = (\<lambda>n. \<lparr>diff_cached = (\<lambda>p. Some []), numstat = (\<lambda>p. Some [])\<rparr>)\<rparr>
     ([[''Makefile''] \<mapsto> \<lparr>content = Some ''all:\<newline>'', st_size = 5, writable = True\<rparr>], 7 ## 3 ## 11 ## 0 ## 5 ## sconst 0)
     ''2024-01-01'' ''2024-01-05'' 5 ''main'' 3) = Inr () \<and>
   snd (backfill
     \<lparr>fromisoformat = [''2024-01-01'' \<mapsto> 63839664000000000, ''2024-01-02'' \<mapsto> 63839750400000000,
        ''2024-01-05'' \<mapsto> 63840009600000000], ellipsis = CHR ''~'',
      ls_files = Some [[''Makefile'']], checkout_ok = True, add_ok = (\<lambda>n. True),
      commit_ok = (\<lambda>n. True), push_ok = (\<lambda>n. True),
      answers = (\<lambda>n. \<lparr>diff_cached = (\<lambda>p. Some []), numstat = (\<lambda>p. Some [])\<rparr>)\<rparr>
     ([[''Makefile''] \<mapsto> \<lparr>content = Some ''all:\<newline>'', st_size = 5, writable = True\<rparr>], 7 ## 3 ## 11 ## 0 ## 5 ## sconst 0)
     ''2024-01-01'' ''2024-01-05'' 5 ''main'' 3)
     \<noteq> Inl (SystemExit (capacity_message 5 ''2024-01-01'' ''2024-01-05'' 3))"
proof -
  have h0: "(0 :: int) \<le> 3"
    by simp
  have over: "((63839664000000000 - 63839664000000000) div DAY + 1) * 3 < (5 :: int)"
    and under: "(5 :: int) \<le> ((63840009600000000 - 63839664000000000) div DAY + 1) * 3"
    and le: "(63839664000000000 :: int) \<le> 63839664000000000"
    by (simp_all add: DAY_def)
  have files: "\<exists>allfiles. tracked_files \<lparr>fromisoformat = [''2024-01-01'' \<mapsto> 63839664000000000, ''2024-01-02'' \<mapsto> 63839750400000000,
        ''2024-01-05'' \<mapsto> 63840009600000000], ellipsis = CHR ''~'',
      ls_files = Some [[''Makefile'']], checkout_ok = True, add_ok = (\<lambda>n. True),
      commit_ok = (\<lambda>n. True), push_ok = (\<lambda>n. True),
      answers = (\<lambda>n. \<lparr>diff_cached = (\<lambda>p. Some []), numstat = (\<lambda>p. Some [])\<rparr>)\<rparr>
      (fst ([[''Makefile''] \<mapsto> \<lparr>content = Some ''all:\<newline>'', st_size = 5, writable = True\<rparr>], sconst 0 :: rng)) = Inr allfiles \<and> allfiles \<noteq> []"
    by (simp add: tracked_files_def)
  have a: "snd (backfill
     \<lparr>fromisoformat = [''2024-01-01'' \<mapsto> 63839664000000000, ''2024-01-02'' \<mapsto> 63839750400000000,
        ''2024-01-05'' \<mapsto> 63840009600000000], ellipsis = CHR ''~'',
      ls_files = Some [[''Makefile'']], checkout_ok = True, add_ok = (\<lambda>n. True),
      commit_ok = (\<lambda>n. True), push_ok = (\<lambda>n. True),
      answers = (\<lambda>n. \<lparr>diff_cached = (\<lambda>p. Some []), numstat = (\<lambda>p. Some [])\<rparr>)\<rparr>
     ([[''Makefile''] \<mapsto> \<lparr>content = Some ''all:\<newline>'', st_size = 5, writable = True\<rparr>], sconst 0)
     ''2024-01-01'' ''2024-01-01'' 5 ''main'' 3)
     = Inl (SystemExit (capacity_message 5 ''2024-01-01'' ''2024-01-01'' 3))"
    using capacity_check[OF parse_dates(1) parse_dates(1) h0,
        of 5 "([[''Makefile''] \<mapsto> \<lparr>content = Some ''all:\<newline>'', st_size = 5, writable = True\<rparr>], sconst 0)" "''main''"] over le files
    by blast
  have b: "snd (backfill
     \<lparr>fromisoformat = [''2024-01-01'' \<mapsto> 63839664000000000, ''2024-01-02'' \<mapsto> 63839750400000000,
        ''2024-01-05'' \<mapsto> 63840009600000000], ellipsis = CHR ''~'',
      ls_files = Some [[''Makefile'']], checkout_ok = True, add_ok = (\<lambda>n. True),
      commit_ok = (\<lambda>n. True), push_ok = (\<lambda>n. True),
      answers = (\<lambda>n. \<lparr>diff_cached = (\<lambda>p. Some []), numstat = (\<lambda>p. Some [])\<rparr>)\<rparr>
     ([[''Makefile''] \<mapsto> \<lparr>content = Some ''all:\<newline>'', st_size = 5, writable = True\<rparr>], 7 ## 3 ## 11 ## 0 ## 5 ## sconst 0)
     ''2024-01-01'' ''2024-01-05'' 5 ''main'' 3)
     \<noteq> Inl (SystemExit (capacity_message 5 ''2024-01-01'' ''2024-01-05'' 3))"
    using capacity_check[OF parse_dates(1) parse_dates(3) h0,
        of 5 "([[''Makefile''] \<mapsto> \<lparr>content = Some ''all:\<newline>'', st_size = 5, writable = True\<rparr>], 7 ## 3 ## 11 ## 0 ## 5 ## sconst 0)" "''main''"] under
    by blast
  show ?thesis
    by (rule conjI[OF parse_dates(1) conjI[OF parse_dates(3) conjI[OF h0 conjI[OF over conjI[OF a
      conjI[OF capacity_message_5_3 conjI[OF under conjI[OF run_five_days b]]]]]]]])
qed

end
